theory Spec2Isabelle
  imports Complex_Main
begin

section \<open>numpy values and Python errors\<close>

text \<open>
  The arrays handled by \<^verbatim>\<open>_dist_for_clonotype\<close> have \<^verbatim>\<open>dtype=float\<close>. The code
  only compares, selects and multiplies by a boolean mask, so a value is modelled
  as NaN, positive infinity (written by \<^verbatim>\<open>tmp_array[tmp_array == 0] = np.inf\<close>)
  or a finite number. The entries of the distance matrices are finite.
\<close>

datatype npfloat = NaN | PInf | Fin real

datatype error = ValueError | KeyError | IndexError | AssertionError | TypeError

definition ebind :: "error + 'a \<Rightarrow> ('a \<Rightarrow> error + 'b) \<Rightarrow> error + 'b" where
  "ebind m f = (case m of Inl e \<Rightarrow> Inl e | Inr x \<Rightarrow> f x)"

text \<open>Run a list of fallible computations from left to right; the first error wins.\<close>

fun sequence_err :: "(error + 'a) list \<Rightarrow> error + 'a list" where
  "sequence_err [] = Inr []"
| "sequence_err (m # ms) =
     (case m of Inl e \<Rightarrow> Inl e
      | Inr x \<Rightarrow> (case sequence_err ms of Inl e \<Rightarrow> Inl e | Inr xs \<Rightarrow> Inr (x # xs)))"

definition isnan :: "npfloat \<Rightarrow> bool" where
  "isnan x = (x = NaN)"

definition isinf :: "npfloat \<Rightarrow> bool" where
  "isinf x = (x = PInf)"

text \<open>\<^verbatim>\<open>tmp_array[tmp_array == 0] = np.inf\<close> and \<^verbatim>\<open>tmp_array[np.isinf(tmp_array)] = 0\<close>,
  one element.\<close>

definition zero_to_inf :: "npfloat \<Rightarrow> npfloat" where
  "zero_to_inf x = (if x = Fin 0 then PInf else x)"

definition inf_to_zero :: "npfloat \<Rightarrow> npfloat" where
  "inf_to_zero x = (if isinf x then Fin 0 else x)"

text \<open>\<^verbatim>\<open>np.nanmax\<close> and \<^verbatim>\<open>np.nanmin\<close> along one column: NaN entries are skipped, and a
  column of NaN only gives NaN.\<close>

fun fmax :: "npfloat \<Rightarrow> npfloat \<Rightarrow> npfloat" where
  "fmax NaN y = y"
| "fmax x NaN = x"
| "fmax PInf y = PInf"
| "fmax x PInf = PInf"
| "fmax (Fin a) (Fin b) = Fin (max a b)"

fun fmin :: "npfloat \<Rightarrow> npfloat \<Rightarrow> npfloat" where
  "fmin NaN y = y"
| "fmin x NaN = x"
| "fmin PInf y = y"
| "fmin x PInf = x"
| "fmin (Fin a) (Fin b) = Fin (min a b)"

definition nanmax :: "npfloat list \<Rightarrow> npfloat" where
  "nanmax col = fold fmax col NaN"

definition nanmin :: "npfloat list \<Rightarrow> npfloat" where
  "nanmin col = fold fmin col NaN"

text \<open>\<^verbatim>\<open>np.multiply(x, mask)\<close> for a float \<open>x\<close> and a boolean: the boolean is 1.0 or
  0.0, and NaN times anything is NaN, as is infinity times zero.\<close>

fun multiply_mask :: "npfloat \<Rightarrow> bool \<Rightarrow> npfloat" where
  "multiply_mask NaN b = NaN"
| "multiply_mask PInf b = (if b then PInf else NaN)"
| "multiply_mask (Fin a) b = Fin (if b then a else 0)"

text \<open>\<^verbatim>\<open>np.vstack\<close> of one-dimensional arrays: it needs at least one array, and all of
  the same length. The columns of the stacked array are what \<^verbatim>\<open>axis=0\<close> reduces.\<close>

definition vstack :: "npfloat list list \<Rightarrow> error + npfloat list list" where
  "vstack args =
     (if args = [] then Inl ValueError
      else if list_all (\<lambda>r. length r = length (hd args)) args then Inr args
      else Inl ValueError)"

definition columns :: "npfloat list list \<Rightarrow> npfloat list list" where
  "columns m = map (\<lambda>j. map (\<lambda>r. r ! j) m) [0..<length (hd m)]"

section \<open>Configuration of \<^verbatim>\<open>ClonotypeNeighbors\<close>\<close>

datatype arms_policy = Arms_VJ | Arms_VDJ | Arms_all | Arms_any

datatype dual_policy = Primary_only | Dual_all | Dual_any

record config =
  receptor_arms :: arms_policy
  dual_ir :: dual_policy
  same_v_gene :: bool
  within_group :: "string list option"
  sequence_key :: string

text \<open>\<^verbatim>\<open>self._receptor_arm_cols\<close> and \<^verbatim>\<open>self._dual_ir_cols\<close>\<close>

definition receptor_arm_cols :: "config \<Rightarrow> string list" where
  "receptor_arm_cols cfg =
     (case receptor_arms cfg of
        Arms_all \<Rightarrow> [''VJ'', ''VDJ'']
      | Arms_any \<Rightarrow> [''VJ'', ''VDJ'']
      | Arms_VJ \<Rightarrow> [''VJ'']
      | Arms_VDJ \<Rightarrow> [''VDJ''])"

definition dual_ir_cols :: "config \<Rightarrow> string list" where
  "dual_ir_cols cfg = (if dual_ir cfg = Primary_only then [''1''] else [''1'', ''2''])"

text \<open>\<^verbatim>\<open>f"IR_{arm}_{i}_{self.sequence_key}"\<close> and \<^verbatim>\<open>f"IR_{arm}_{i}_v_gene"\<close>\<close>

definition ir_col :: "string \<Rightarrow> string \<Rightarrow> string \<Rightarrow> string" where
  "ir_col arm i key = ''IR_'' @ arm @ ''_'' @ i @ ''_'' @ key"

text \<open>\<^verbatim>\<open>itertools.product(self._receptor_arm_cols, self._dual_ir_cols)\<close>: the arm is the
  outer loop.\<close>

definition cdr3_cols :: "config \<Rightarrow> string list" where
  "cdr3_cols cfg =
     concat (map (\<lambda>arm. map (\<lambda>i. ir_col arm i (sequence_key cfg)) (dual_ir_cols cfg))
                 (receptor_arm_cols cfg))"

definition v_gene_cols :: "config \<Rightarrow> string list" where
  "v_gene_cols cfg =
     (if same_v_gene cfg
      then concat (map (\<lambda>arm. map (\<lambda>i. ir_col arm i ''v_gene'') (dual_ir_cols cfg))
                       (receptor_arm_cols cfg))
      else [])"

definition clonotype_cols :: "config \<Rightarrow> string list" where
  "clonotype_cols cfg =
     cdr3_cols cfg @ v_gene_cols cfg @
     (case within_group cfg of None \<Rightarrow> [] | Some g \<Rightarrow> g)"

section \<open>The cell records\<close>

text \<open>
  \<^verbatim>\<open>adata.obs\<close> is a data frame with one row for each cell. A field is a string or
  is missing (NaN). \<open>has_ir\<close> is what \<^verbatim>\<open>_is_true\<close> answers for the cell's
  \<^verbatim>\<open>has_ir\<close> entry. \<open>obs_columns\<close> are the names of the columns of the frame.
\<close>

datatype obsval = Missing | Strval string

record cell =
  obs_name :: string
  has_ir :: bool
  obs_entry :: "string \<Rightarrow> obsval"

record anndata =
  obs_columns :: "string list"
  obs :: "cell list"

text \<open>\<^verbatim>\<open>astype(str)\<close>: a string stays, NaN becomes \<^verbatim>\<open>"nan"\<close>.\<close>

fun astype_str :: "obsval \<Rightarrow> string" where
  "astype_str Missing = ''nan''"
| "astype_str (Strval s) = s"

text \<open>The two statements in the loop over \<^verbatim>\<open>obs_filtered.columns\<close>, for one entry.
  \<^verbatim>\<open>_is_na\<close> is imported from \<^verbatim>\<open>scirpy.util\<close>; it is a parameter here, applied to
  the string that \<^verbatim>\<open>astype(str)\<close> wrote.\<close>

definition norm_value :: "(string \<Rightarrow> bool) \<Rightarrow> obsval \<Rightarrow> string" where
  "norm_value is_na v = (let s = astype_str v in if is_na s then ''nan'' else s)"

section \<open>The clonotype table\<close>

text \<open>
  \<^verbatim>\<open>self.clonotypes\<close> is a data frame of strings, one column for each name in
  \<open>ct_cols\<close>, and, when \<^verbatim>\<open>within_group\<close> is set, one more column named
  \<^verbatim>\<open>within_group\<close> holding a tuple of strings for each row.
\<close>

record ct_table =
  ct_cols :: "string list"
  ct_rows :: "string list list"
  ct_within_group :: "string list list option"

fun index_of :: "'a \<Rightarrow> 'a list \<Rightarrow> nat option" where
  "index_of x [] = None"
| "index_of x (y # ys) =
     (if x = y then Some 0 else map_option Suc (index_of x ys))"

text \<open>\<^verbatim>\<open>self.clonotypes[name].values\<close>: KeyError when there is no such column.\<close>

definition get_col :: "ct_table \<Rightarrow> string \<Rightarrow> error + string list" where
  "get_col tab name =
     (case index_of name (ct_cols tab) of
        None \<Rightarrow> Inl KeyError
      | Some k \<Rightarrow> Inr (map (\<lambda>r. r ! k) (ct_rows tab)))"

section \<open>The two reductions of \<^verbatim>\<open>_dist_for_clonotype\<close>\<close>

text \<open>\<^verbatim>\<open>np.sum(self.clonotypes.loc[:, cols].iloc[ct_id, :].values == "nan")\<close>\<close>

definition chain_count :: "ct_table \<Rightarrow> nat \<Rightarrow> string list \<Rightarrow> error + nat" where
  "chain_count tab ct_id cols =
     ebind (sequence_err (map (get_col tab) cols)) (\<lambda>vals.
       if ct_id < length (ct_rows tab)
       then Inr (length (filter (\<lambda>c. c ! ct_id = ''nan'') vals))
       else Inl IndexError)"

definition reduce_and_col :: "nat \<Rightarrow> npfloat list \<Rightarrow> npfloat" where
  "reduce_and_col count col =
     (let tmp = map zero_to_inf col;
          same_count = (length (filter isnan tmp) = count)
      in multiply_mask (inf_to_zero (nanmax tmp)) same_count)"

definition reduce_and :: "ct_table \<Rightarrow> nat \<Rightarrow> string list \<Rightarrow> npfloat list list \<Rightarrow> error + npfloat list" where
  "reduce_and tab ct_id cols args =
     ebind (chain_count tab ct_id cols) (\<lambda>count.
     ebind (vstack args) (\<lambda>tmp_array.
       Inr (map (reduce_and_col count) (columns tmp_array))))"

definition reduce_or_col :: "npfloat list \<Rightarrow> npfloat" where
  "reduce_or_col col = inf_to_zero (nanmin (map zero_to_inf col))"

definition reduce_or :: "npfloat list list \<Rightarrow> error + npfloat list" where
  "reduce_or args =
     ebind (vstack args) (\<lambda>tmp_array.
       Inr (map reduce_or_col (columns tmp_array)))"

section \<open>\<^verbatim>\<open>_make_clonotype_table\<close>\<close>

text \<open>\<^verbatim>\<open>obs_filtered\<close> after the normalising loop: the cells with \<^verbatim>\<open>has_ir\<close>, each with
  its name (the index of the frame) and its normalised entries in the columns
  \<^verbatim>\<open>clonotype_cols\<close>.\<close>

definition clonotype_key :: "(string \<Rightarrow> bool) \<Rightarrow> config \<Rightarrow> cell \<Rightarrow> string list" where
  "clonotype_key is_na cfg c =
     map (\<lambda>col. norm_value is_na (obs_entry c col)) (clonotype_cols cfg)"

definition obs_filtered :: "(string \<Rightarrow> bool) \<Rightarrow> config \<Rightarrow> anndata \<Rightarrow> (string \<times> string list) list" where
  "obs_filtered is_na cfg adata =
     map (\<lambda>c. (obs_name c, clonotype_key is_na cfg c)) (filter has_ir (obs adata))"

text \<open>\<^verbatim>\<open>groupby(clonotype_cols, sort=False).size().index\<close>: the distinct rows, in the
  order of their first occurrence.\<close>

definition unique_rows :: "'a list \<Rightarrow> 'a list" where
  "unique_rows xs = rev (remdups (rev xs))"

text \<open>
  The keys of the dictionary \<^verbatim>\<open>clonotype_groupby.indices\<close>. pandas keys the groups of
  a \<^verbatim>\<open>groupby\<close> over a list of several columns by the tuple of the values, and the
  groups of a \<^verbatim>\<open>groupby\<close> over a list of one column by the value itself, not by a
  tuple of length one. \<^verbatim>\<open>itertuples(index=False, name=None)\<close> always yields tuples.
\<close>

datatype gkey = Scalar string | Tuple "string list"

definition group_key :: "string list \<Rightarrow> gkey" where
  "group_key row = (case row of [x] \<Rightarrow> Scalar x | _ \<Rightarrow> Tuple row)"

definition groupby_indices :: "string list list \<Rightarrow> gkey \<Rightarrow> nat list option" where
  "groupby_indices rows k =
     (let ps = filter (\<lambda>i. group_key (rows ! i) = k) [0..<length rows]
      in if ps = [] then None else Some ps)"

text \<open>\<^verbatim>\<open>obs_filtered.index[clonotype_groupby.indices.get(ct_tuple, [])].values\<close> for
  each \<^verbatim>\<open>ct_tuple\<close> of \<^verbatim>\<open>clonotypes.itertuples(index=False, name=None)\<close>\<close>

definition cell_indices_of :: "(string \<times> string list) list \<Rightarrow> string list list \<Rightarrow> string list list" where
  "cell_indices_of filtered clonotypes =
     map (\<lambda>ct_tuple.
            case groupby_indices (map snd filtered) (Tuple ct_tuple) of
              None \<Rightarrow> []
            | Some ps \<Rightarrow> map (\<lambda>i. fst (filtered ! i)) ps)
         clonotypes"

text \<open>The consistency check, one arm after the other:
  \<^verbatim>\<open>assert not np.sum(~secondary_is_nan[primary_is_nan])\<close>\<close>

fun check_arms :: "ct_table \<Rightarrow> string \<Rightarrow> string list \<Rightarrow> error + unit" where
  "check_arms tab key [] = Inr ()"
| "check_arms tab key (tmp_arm # arms) =
     ebind (get_col tab (ir_col tmp_arm ''1'' key)) (\<lambda>primary.
     ebind (get_col tab (ir_col tmp_arm ''2'' key)) (\<lambda>secondary.
       if list_ex (\<lambda>(p, s). p = ''nan'' \<and> s \<noteq> ''nan'') (zip primary secondary)
       then Inl AssertionError
       else check_arms tab key arms))"

text \<open>
  The whole method. It returns \<^verbatim>\<open>self.clonotypes\<close> and \<^verbatim>\<open>self.cell_indices\<close>.
  The frame \<^verbatim>\<open>adata.obs.loc[..., clonotype_cols]\<close> needs every column to exist
  (KeyError), and \<^verbatim>\<open>groupby\<close> refuses a column label that occurs twice (ValueError).
  With \<^verbatim>\<open>within_group\<close>, the columns of the group are taken out of the table and put
  back as one column of tuples. For an empty list \<^verbatim>\<open>within_group\<close> there is no column
  to take the tuples from: \<^verbatim>\<open>itertuples\<close> of a frame without columns yields nothing,
  and assigning the empty list as a column of the table, which has rows, is a ValueError.
\<close>

definition make_clonotype_table ::
  "(string \<Rightarrow> bool) \<Rightarrow> config \<Rightarrow> anndata \<Rightarrow> error + (ct_table \<times> string list list)" where
  "make_clonotype_table is_na cfg adata =
     (if \<not> distinct (map obs_name (obs adata)) then Inl ValueError
      else if \<not> list_all (\<lambda>c. c \<in> set (obs_columns adata)) (clonotype_cols cfg) then Inl KeyError
      else if \<not> distinct (clonotype_cols cfg) then Inl ValueError
      else
        let filtered = obs_filtered is_na cfg adata;
            clonotypes = unique_rows (map snd filtered)
        in if clonotypes = [] then Inl ValueError
           else if within_group cfg = Some [] then Inl ValueError
           else
             let cell_indices = cell_indices_of filtered clonotypes;
                 k = length (cdr3_cols cfg @ v_gene_cols cfg);
                 tab = \<lparr> ct_cols = cdr3_cols cfg @ v_gene_cols cfg,
                         ct_rows = map (take k) clonotypes,
                         ct_within_group =
                           (case within_group cfg of
                              None \<Rightarrow> None
                            | Some g \<Rightarrow> Some (map (drop k) clonotypes)) \<rparr>
             in ebind (if ''2'' \<in> set (dual_ir_cols cfg)
                       then check_arms tab (sequence_key cfg) (receptor_arm_cols cfg)
                       else Inr ())
                  (\<lambda>_. Inr (tab, cell_indices)))"

section \<open>\<^verbatim>\<open>_dist_for_clonotype\<close>\<close>

text \<open>
  \<^verbatim>\<open>DoubleLookupNeighborFinder.lookup\<close> lives in \<^verbatim>\<open>scirpy/ir_dist/_util.py\<close> and is a
  parameter of the model: \<open>lookup ct_id table_a table_b\<close> is the row it returns,
  one finite value for each column. A column counts as having a distance when the
  row is not zero there.
\<close>

type_synonym lookup_fun = "nat \<Rightarrow> string \<Rightarrow> string \<Rightarrow> real list"

definition chain_ids :: "config \<Rightarrow> (nat \<times> nat) list" where
  "chain_ids cfg =
     (if dual_ir cfg = Primary_only then [(1, 1)] else [(1, 1), (2, 2), (1, 2), (2, 1)])"

text \<open>The decimal digit that an f-string writes for the chain number 1 or 2.\<close>

definition chain_str :: "nat \<Rightarrow> string" where
  "chain_str c = (if c = 1 then ''1'' else ''2'')"

text \<open>\<^verbatim>\<open>f"{tmp_arm}_{c1}"\<close>\<close>

definition table_name :: "string \<Rightarrow> nat \<Rightarrow> string" where
  "table_name tmp_arm c = tmp_arm @ ''_'' @ chain_str c"

text \<open>The values of the dictionary \<^verbatim>\<open>lookup\<close>, in the order of insertion.\<close>

definition lookup_values :: "lookup_fun \<Rightarrow> config \<Rightarrow> nat \<Rightarrow> real list list" where
  "lookup_values lookup cfg ct_id =
     concat (map (\<lambda>tmp_arm.
                    map (\<lambda>(c1, c2). lookup ct_id (table_name tmp_arm c1) (table_name tmp_arm c2))
                        (chain_ids cfg))
                 (receptor_arm_cols cfg))"

text \<open>
  Modelled from the spec: the masks that \<^verbatim>\<open>lookup\<close> returns and their \<^verbatim>\<open>|\<close> operator are
  defined in \<^verbatim>\<open>_util.py\<close>. The spec calls \<^verbatim>\<open>has_distance\<close> the union of all columns
  that had at least one nonzero lookup entry across all chain-pair combinations. The
  rows that are combined must have the same length.
\<close>

definition or_mask :: "bool list \<Rightarrow> bool list \<Rightarrow> error + bool list" where
  "or_mask a b =
     (if length a = length b then Inr (map (\<lambda>(x, y). x \<or> y) (zip a b)) else Inl ValueError)"

fun reduce_or_mask :: "bool list \<Rightarrow> bool list list \<Rightarrow> error + bool list" where
  "reduce_or_mask acc [] = Inr acc"
| "reduce_or_mask acc (m # ms) = ebind (or_mask acc m) (\<lambda>acc'. reduce_or_mask acc' ms)"

definition nonzero_mask :: "real list \<Rightarrow> bool list" where
  "nonzero_mask row = map (\<lambda>v. v \<noteq> 0) row"

text \<open>\<^verbatim>\<open>reduce(or_, lookup.values())\<close>; \<^verbatim>\<open>reduce\<close> of an empty sequence is a TypeError.\<close>

definition has_distance :: "real list list \<Rightarrow> error + bool list" where
  "has_distance rows =
     (case rows of
        [] \<Rightarrow> Inl TypeError
      | r # rs \<Rightarrow> reduce_or_mask (nonzero_mask r) (map nonzero_mask rs))"

text \<open>\<^verbatim>\<open>has_distance.indices\<close>\<close>

definition mask_indices :: "bool list \<Rightarrow> nat list" where
  "mask_indices msk = filter (\<lambda>j. msk ! j) [0..<length msk]"

text \<open>A sparse matrix of one row: its number of columns, the columns of the stored
  entries and their values.\<close>

record sprow =
  sr_ncols :: nat
  sr_indices :: "nat list"
  sr_data :: "npfloat list"

text \<open>\<^verbatim>\<open>make_tmp_res(tmp_arm, c1, c2)\<close>: reading \<^verbatim>\<open>ct_col2[i]\<close> or \<^verbatim>\<open>data[0, i]\<close> out of
  range is an IndexError.\<close>

definition make_tmp_res ::
  "lookup_fun \<Rightarrow> config \<Rightarrow> ct_table \<Rightarrow> nat \<Rightarrow> nat list \<Rightarrow> string \<Rightarrow> nat \<Rightarrow> nat \<Rightarrow> error + npfloat list" where
  "make_tmp_res lookup cfg tab ct_id indices tmp_arm c1 c2 =
     ebind (get_col tab (ir_col tmp_arm (chain_str c2) (sequence_key cfg))) (\<lambda>ct_col2.
       let data = lookup ct_id (table_name tmp_arm c1) (table_name tmp_arm c2)
       in sequence_err
            (map (\<lambda>i. if i < length ct_col2
                       then (if ct_col2 ! i \<noteq> ''nan''
                             then (if i < length data then Inr (Fin (data ! i)) else Inl IndexError)
                             else Inr NaN)
                       else Inl IndexError)
                 indices))"

text \<open>The body of the loop \<^verbatim>\<open>for tmp_arm in self._receptor_arm_cols\<close> that fills
  \<^verbatim>\<open>res\<close>. Python evaluates the arguments of a call from left to right.\<close>

definition arm_res ::
  "lookup_fun \<Rightarrow> config \<Rightarrow> ct_table \<Rightarrow> nat \<Rightarrow> nat list \<Rightarrow> string \<Rightarrow> error + npfloat list" where
  "arm_res lookup cfg tab ct_id indices tmp_arm =
     (let mk = make_tmp_res lookup cfg tab ct_id indices tmp_arm;
          cols = map (\<lambda>c. ir_col tmp_arm (chain_str c) (sequence_key cfg)) [1, 2]
      in case dual_ir cfg of
           Primary_only \<Rightarrow> mk 1 1
         | Dual_all \<Rightarrow>
             ebind (mk 1 1) (\<lambda>r11.
             ebind (mk 2 2) (\<lambda>r22.
             ebind (reduce_and tab ct_id cols [r11, r22]) (\<lambda>a.
             ebind (mk 1 2) (\<lambda>r12.
             ebind (mk 2 1) (\<lambda>r21.
             ebind (reduce_and tab ct_id cols [r12, r21]) (\<lambda>b.
               reduce_or [a, b]))))))
         | Dual_any \<Rightarrow>
             ebind (mk 1 1) (\<lambda>r11.
             ebind (mk 1 2) (\<lambda>r12.
             ebind (mk 2 2) (\<lambda>r22.
             ebind (mk 2 1) (\<lambda>r21.
               reduce_or [r11, r12, r22, r21])))))"

text \<open>
  The method. \<^verbatim>\<open>np.vstack(res)\<close> is a two-dimensional array, and the \<^verbatim>\<open>np.vstack\<close>
  inside the reduction stacks that one array again, which leaves it as it is. The
  lookups of \<^verbatim>\<open>within_group\<close> and of the v-genes are commented out in the source
  (\<^verbatim>\<open># TODO within_group + v_genes!\<close>), so the method reads the tables
  \<^verbatim>\<open>f"{tmp_arm}_{c}"\<close> only.
\<close>

definition dist_for_clonotype :: "lookup_fun \<Rightarrow> config \<Rightarrow> ct_table \<Rightarrow> nat \<Rightarrow> error + sprow" where
  "dist_for_clonotype lookup cfg tab ct_id =
     (let rows = lookup_values lookup cfg ct_id
      in ebind (has_distance rows) (\<lambda>msk.
         let indices = mask_indices msk
         in ebind (sequence_err (map (arm_res lookup cfg tab ct_id indices) (receptor_arm_cols cfg))) (\<lambda>res.
            ebind (vstack res) (\<lambda>stacked.
            ebind (if receptor_arms cfg = Arms_all
                   then reduce_and tab ct_id
                          (map (\<lambda>arm. ir_col arm ''1'' (sequence_key cfg)) (receptor_arm_cols cfg))
                          stacked
                   else reduce_or stacked) (\<lambda>res'.
              Inr \<lparr> sr_ncols = length msk, sr_indices = indices, sr_data = res' \<rparr>)))))"

section \<open>\<^verbatim>\<open>compute_distances\<close>\<close>

text \<open>A sparse matrix: its shape and, for each row, the stored entries as pairs of a
  column and a value.\<close>

record spmatrix =
  sp_nrows :: nat
  sp_ncols :: nat
  sp_entries :: "(nat \<times> npfloat) list list"

text \<open>\<^verbatim>\<open>sp.vstack\<close> of one-row matrices: at least one block, all of the same width.\<close>

definition sp_vstack :: "sprow list \<Rightarrow> error + spmatrix" where
  "sp_vstack blocks =
     (case blocks of
        [] \<Rightarrow> Inl ValueError
      | b # bs \<Rightarrow>
          if list_all (\<lambda>r. sr_ncols r = sr_ncols b) bs
          then Inr \<lparr> sp_nrows = length blocks, sp_ncols = sr_ncols b,
                     sp_entries = map (\<lambda>r. zip (sr_indices r) (sr_data r)) blocks \<rparr>
          else Inl ValueError)"

definition eliminate_zeros :: "spmatrix \<Rightarrow> spmatrix" where
  "eliminate_zeros m = m \<lparr> sp_entries := map (filter (\<lambda>(j, v). v \<noteq> Fin 0)) (sp_entries m) \<rparr>"

text \<open>\<^verbatim>\<open>tmap\<close> maps \<^verbatim>\<open>_dist_for_clonotype\<close> over \<^verbatim>\<open>range(n_clonotypes)\<close> in order.\<close>

definition compute_distances :: "lookup_fun \<Rightarrow> config \<Rightarrow> ct_table \<Rightarrow> error + spmatrix" where
  "compute_distances lookup cfg tab =
     (let n_clonotypes = length (ct_rows tab)
      in ebind (sequence_err (map (dist_for_clonotype lookup cfg tab) [0..<n_clonotypes])) (\<lambda>dist_rows.
         ebind (sp_vstack dist_rows) (\<lambda>dist.
           Inr (eliminate_zeros dist))))"

text \<open>The entry of a sparse matrix at a position: a position that is not stored reads
  as zero.\<close>

definition sp_get :: "spmatrix \<Rightarrow> nat \<Rightarrow> nat \<Rightarrow> npfloat" where
  "sp_get m i j = (case map_of (sp_entries m ! i) j of None \<Rightarrow> Fin 0 | Some v \<Rightarrow> v)"

definition sprow_get :: "sprow \<Rightarrow> nat \<Rightarrow> npfloat" where
  "sprow_get r j = (case map_of (zip (sr_indices r) (sr_data r)) j of None \<Rightarrow> Fin 0 | Some v \<Rightarrow> v)"

text \<open>The rows of the clonotype table with the tuple of \<^verbatim>\<open>within_group\<close> appended: the
  rows of the frame as they were before the columns of the group were folded into one.\<close>

definition full_rows :: "ct_table \<Rightarrow> string list list" where
  "full_rows tab =
     (case ct_within_group tab of
        None \<Rightarrow> ct_rows tab
      | Some w \<Rightarrow> map (\<lambda>(r, g). r @ g) (zip (ct_rows tab) w))"

text \<open>The table that \<^verbatim>\<open>_make_clonotype_table\<close> has built when it reaches the consistency
  check.\<close>

definition built_table :: "(string \<Rightarrow> bool) \<Rightarrow> config \<Rightarrow> anndata \<Rightarrow> ct_table" where
  "built_table is_na cfg adata =
     (let clonotypes = unique_rows (map snd (obs_filtered is_na cfg adata));
          k = length (cdr3_cols cfg @ v_gene_cols cfg)
      in \<lparr> ct_cols = cdr3_cols cfg @ v_gene_cols cfg,
           ct_rows = map (take k) clonotypes,
           ct_within_group =
             (case within_group cfg of
                None \<Rightarrow> None
              | Some g \<Rightarrow> Some (map (drop k) clonotypes)) \<rparr>)"

section \<open>The lookup tables and the neighbor finder\<close>

text \<open>\<^verbatim>\<open>_add_lookup_tables\<close>: the calls of \<^verbatim>\<open>add_lookup_table\<close> in order, each with the
  name of the table, the column of the clonotype table and the name of the distance
  matrix.\<close>

definition add_lookup_tables :: "config \<Rightarrow> (string \<times> string \<times> string) list" where
  "add_lookup_tables cfg =
     concat (map (\<lambda>arm. concat (map (\<lambda>i.
                (arm @ ''_'' @ i, ir_col arm i (sequence_key cfg), arm) #
                (if same_v_gene cfg
                 then [(arm @ ''_'' @ i @ ''_v_gene'', ir_col arm i ''v_gene'', ''v_gene'')]
                 else []))
              (dual_ir_cols cfg)))
            (receptor_arm_cols cfg)) @
     (if within_group cfg \<noteq> None then [(''within_group'', ''within_group'', ''within_group'')] else [])"

text \<open>The tables that \<^verbatim>\<open>_dist_for_clonotype\<close> passes to \<^verbatim>\<open>lookup\<close>.\<close>

definition looked_up_tables :: "config \<Rightarrow> string list" where
  "looked_up_tables cfg =
     concat (map (\<lambda>tmp_arm. concat (map (\<lambda>(c1, c2). [table_name tmp_arm c1, table_name tmp_arm c2])
                                         (chain_ids cfg)))
                 (receptor_arm_cols cfg))"

text \<open>An entry of \<^verbatim>\<open>adata.uns[distance_key]\<close>: the labels \<^verbatim>\<open>"seqs"\<close> and the matrix
  \<^verbatim>\<open>"distances"\<close>, row by row.\<close>

record distance_matrix =
  dm_labels :: "string list"
  dm_distances :: "real list list"

text \<open>
  Modelled from the spec: \<^verbatim>\<open>DoubleLookupNeighborFinder.lookup\<close> of \<^verbatim>\<open>_util.py\<close>, which is
  not among the sources. The spec: \<^verbatim>\<open>lookup(clonotype_id, table_a, table_b)\<close> resolves
  the clonotype's label via \<^verbatim>\<open>table_a\<close>, retrieves the corresponding row of the distance
  matrix backing both tables, and re-expresses it as a row indexed by clonotype id via
  \<^verbatim>\<open>table_b\<close>; if the clonotype has no resolved label the row is all zero; the length of
  the row is the number of clonotypes, and entries are 0 wherever no matching label or
  distance exists.
\<close>

definition dlnf_lookup ::
  "ct_table \<Rightarrow> (string \<times> distance_matrix) list \<Rightarrow> (string \<times> string \<times> string) list \<Rightarrow> lookup_fun" where
  "dlnf_lookup tab dms tables ct_id table_a table_b =
     (let n = length (ct_rows tab); zero = replicate n 0
      in case (map_of tables table_a, map_of tables table_b) of
           (Some (col_a, dm_a), Some (col_b, dm_b)) \<Rightarrow>
             (case (map_of dms dm_a, get_col tab col_a, get_col tab col_b) of
                (Some dm, Inr vals_a, Inr vals_b) \<Rightarrow>
                  if ct_id < n
                  then (case index_of (vals_a ! ct_id) (dm_labels dm) of
                          None \<Rightarrow> zero
                        | Some p \<Rightarrow>
                            map (\<lambda>v. case index_of v (dm_labels dm) of
                                        None \<Rightarrow> 0
                                      | Some q \<Rightarrow> dm_distances dm ! p ! q)
                                vals_b)
                  else zero
              | _ \<Rightarrow> zero)
         | _ \<Rightarrow> zero)"

section \<open>The construction of the engine in \<^verbatim>\<open>ir_query\<close>\<close>

text \<open>
  How Python binds the arguments of a call to the parameters of a function: a
  TypeError when there are more positional arguments than positional parameters, when a
  keyword is not the name of a parameter, when a parameter gets a value twice, or when
  a parameter without a default gets none.
\<close>

record signature =
  sig_positional :: "string list"
  sig_kwonly :: "string list"
  sig_required :: "string list"

record call =
  call_positional :: nat
  call_keywords :: "string list"

definition bind_arguments :: "signature \<Rightarrow> call \<Rightarrow> error + unit" where
  "bind_arguments sg c =
     (if length (sig_positional sg) < call_positional c then Inl TypeError
      else if \<not> list_all (\<lambda>k. k \<in> set (sig_positional sg @ sig_kwonly sg)) (call_keywords c)
        then Inl TypeError
      else if list_ex (\<lambda>k. k \<in> set (take (call_positional c) (sig_positional sg))) (call_keywords c)
        then Inl TypeError
      else if \<not> list_all (\<lambda>p. p \<in> set (take (call_positional c) (sig_positional sg)) \<or>
                                p \<in> set (call_keywords c)) (sig_required sg)
        then Inl TypeError
      else Inr ())"

text \<open>\<^verbatim>\<open>ClonotypeNeighbors.__init__(self, adata, *, receptor_arms=..., dual_ir=...,
  same_v_gene=False, within_group=None, distance_key, sequence_key, n_jobs=None)\<close>\<close>

definition init_signature :: signature where
  "init_signature =
     \<lparr> sig_positional = [''adata''],
       sig_kwonly = [''receptor_arms'', ''dual_ir'', ''same_v_gene'', ''within_group'',
                     ''distance_key'', ''sequence_key'', ''n_jobs''],
       sig_required = [''adata'', ''distance_key'', ''sequence_key''] \<rparr>"

text \<open>The call in \<^verbatim>\<open>ir_query\<close>: \<^verbatim>\<open>ClonotypeNeighbors(adata, reference, receptor_arms=...,
  dual_ir=..., same_v_gene=..., match_columns=..., distance_key=..., sequence_key=...,
  n_jobs=..., chunksize=...)\<close>\<close>

definition ir_query_call :: call where
  "ir_query_call =
     \<lparr> call_positional = 2,
       call_keywords = [''receptor_arms'', ''dual_ir'', ''same_v_gene'', ''match_columns'',
                        ''distance_key'', ''sequence_key'', ''n_jobs'', ''chunksize''] \<rparr>"

section \<open>Example data\<close>

definition example_table :: ct_table where
  "example_table =
     \<lparr> ct_cols = [''IR_VJ_1_junction_aa'', ''IR_VJ_2_junction_aa''],
       ct_rows = [[''CAA'', ''nan''], [''CAA'', ''CAB'']],
       ct_within_group = None \<rparr>"

text \<open>A stand-in for \<^verbatim>\<open>_is_na\<close>, two cells with the same sequence, and the distance matrix
  of the one sequence they carry.\<close>

definition example_is_na :: "string \<Rightarrow> bool" where
  "example_is_na s = (s \<in> set [''NaN'', ''nan'', ''None'', ''N/A''])"

definition cfg_single :: config where
  "cfg_single = \<lparr> receptor_arms = Arms_VJ, dual_ir = Primary_only, same_v_gene = False,
                   within_group = None, sequence_key = ''junction_aa'' \<rparr>"

definition cell_a :: cell where
  "cell_a = \<lparr> obs_name = ''cell_a'', has_ir = True,
              obs_entry = (\<lambda>_. Missing)(''IR_VJ_1_junction_aa'' := Strval ''CAA'',
                                         ''IR_VJ_1_v_gene'' := Strval ''TRAV1'',
                                         ''sample'' := Strval ''A'') \<rparr>"

definition cell_b :: cell where
  "cell_b = \<lparr> obs_name = ''cell_b'', has_ir = True,
              obs_entry = (\<lambda>_. Missing)(''IR_VJ_1_junction_aa'' := Strval ''CAA'',
                                         ''IR_VJ_1_v_gene'' := Strval ''TRAV2'',
                                         ''sample'' := Strval ''B'') \<rparr>"

definition example_columns :: "string list" where
  "example_columns = [''IR_VJ_1_junction_aa'', ''IR_VJ_2_junction_aa'', ''IR_VJ_1_v_gene'',
     ''IR_VJ_2_v_gene'', ''IR_VDJ_1_junction_aa'', ''IR_VDJ_2_junction_aa'', ''IR_VDJ_1_v_gene'',
     ''IR_VDJ_2_v_gene'', ''sample'']"

definition adata_ab :: anndata where
  "adata_ab = \<lparr> obs_columns = example_columns, obs = [cell_a, cell_b] \<rparr>"

definition cfg_group :: config where
  "cfg_group = \<lparr> receptor_arms = Arms_VJ, dual_ir = Primary_only, same_v_gene = False,
                   within_group = Some [''sample''], sequence_key = ''junction_aa'' \<rparr>"

definition cfg_v_gene :: config where
  "cfg_v_gene = \<lparr> receptor_arms = Arms_VJ, dual_ir = Primary_only, same_v_gene = True,
                   within_group = None, sequence_key = ''junction_aa'' \<rparr>"

definition table_group :: ct_table where
  "table_group = \<lparr> ct_cols = [''IR_VJ_1_junction_aa''], ct_rows = [[''CAA''], [''CAA'']],
                    ct_within_group = Some [[''A''], [''B'']] \<rparr>"

definition table_v_gene :: ct_table where
  "table_v_gene = \<lparr> ct_cols = [''IR_VJ_1_junction_aa'', ''IR_VJ_1_v_gene''],
                     ct_rows = [[''CAA'', ''TRAV1''], [''CAA'', ''TRAV2'']],
                     ct_within_group = None \<rparr>"

definition example_distances :: "(string \<times> distance_matrix) list" where
  "example_distances = [(''VJ'', \<lparr> dm_labels = [''CAA''], dm_distances = [[1]] \<rparr>)]"

text \<open>Cells with two chains in the VJ arm: \<open>cell_c\<close> carries the string \<^verbatim>\<open>"nan"\<close> as its
  secondary sequence, \<open>cell_orphan\<close> a secondary sequence and no primary one.\<close>

definition cfg_dual_all :: config where
  "cfg_dual_all = \<lparr> receptor_arms = Arms_VJ, dual_ir = Dual_all, same_v_gene = False,
                     within_group = None, sequence_key = ''junction_aa'' \<rparr>"

definition cell_c :: cell where
  "cell_c = \<lparr> obs_name = ''cell_c'', has_ir = True,
              obs_entry = (\<lambda>_. Missing)(''IR_VJ_1_junction_aa'' := Strval ''CAA'',
                                         ''IR_VJ_2_junction_aa'' := Strval ''nan'') \<rparr>"

definition cell_d :: cell where
  "cell_d = \<lparr> obs_name = ''cell_d'', has_ir = True,
              obs_entry = (\<lambda>_. Missing)(''IR_VJ_1_junction_aa'' := Strval ''CAA'',
                                         ''IR_VJ_2_junction_aa'' := Strval ''CAB'') \<rparr>"

definition cell_e :: cell where
  "cell_e = \<lparr> obs_name = ''cell_e'', has_ir = True,
              obs_entry = (\<lambda>_. Missing)(''IR_VJ_1_junction_aa'' := Strval ''CDD'') \<rparr>"

definition cell_orphan :: cell where
  "cell_orphan = \<lparr> obs_name = ''cell_orphan'', has_ir = True,
              obs_entry = (\<lambda>_. Missing)(''IR_VJ_2_junction_aa'' := Strval ''CAB'') \<rparr>"

definition adata_dual :: anndata where
  "adata_dual = \<lparr> obs_columns = example_columns, obs = [cell_a, cell_c, cell_d, cell_e] \<rparr>"

definition adata_orphan :: anndata where
  "adata_orphan = \<lparr> obs_columns = example_columns, obs = [cell_a, cell_orphan] \<rparr>"

definition table_dual :: ct_table where
  "table_dual =
     \<lparr> ct_cols = [''IR_VJ_1_junction_aa'', ''IR_VJ_2_junction_aa''],
       ct_rows = [[''CAA'', ''nan''], [''CAA'', ''CAB''], [''CDD'', ''nan'']],
       ct_within_group = None \<rparr>"

definition distances_dual :: "(string \<times> distance_matrix) list" where
  "distances_dual =
     [(''VJ'', \<lparr> dm_labels = [''CAA'', ''CAB'', ''CDD''],
                dm_distances = [[1, 0, 0], [0, 1, 2], [0, 2, 1]] \<rparr>)]"

definition lookup_dual :: lookup_fun where
  "lookup_dual = dlnf_lookup table_dual distances_dual (add_lookup_tables cfg_dual_all)"

text \<open>Two clonotypes over both arms: the second has no chain in the VJ arm.\<close>

definition cfg_two_arms_all :: config where
  "cfg_two_arms_all = \<lparr> receptor_arms = Arms_any, dual_ir = Dual_all, same_v_gene = False,
                         within_group = None, sequence_key = ''junction_aa'' \<rparr>"

definition cfg_two_arms_any :: config where
  "cfg_two_arms_any = \<lparr> receptor_arms = Arms_any, dual_ir = Dual_any, same_v_gene = False,
                         within_group = None, sequence_key = ''junction_aa'' \<rparr>"

definition table_two_arms :: ct_table where
  "table_two_arms =
     \<lparr> ct_cols = [''IR_VJ_1_junction_aa'', ''IR_VJ_2_junction_aa'',
                  ''IR_VDJ_1_junction_aa'', ''IR_VDJ_2_junction_aa''],
       ct_rows = [[''CAA'', ''nan'', ''CBB'', ''nan''], [''nan'', ''nan'', ''CBB'', ''nan'']],
       ct_within_group = None \<rparr>"

definition distances_two_arms :: "(string \<times> distance_matrix) list" where
  "distances_two_arms =
     [(''VJ'', \<lparr> dm_labels = [''CAA''], dm_distances = [[1]] \<rparr>),
      (''VDJ'', \<lparr> dm_labels = [''CBB''], dm_distances = [[1]] \<rparr>)]"

definition lookup_two_arms :: lookup_fun where
  "lookup_two_arms = dlnf_lookup table_two_arms distances_two_arms (add_lookup_tables cfg_two_arms_all)"

section \<open>Properties of the reductions\<close>

lemma fmin_NaN_right: "fmin x NaN = x" by (cases x) auto
lemma fmax_NaN_right: "fmax x NaN = x" by (cases x) auto

lemma fmin_commute: "fmin x y = fmin y x"
  by (cases x; cases y) (auto simp: min.commute)
lemma fmax_commute: "fmax x y = fmax y x"
  by (cases x; cases y) (auto simp: max.commute)
lemma fmin_assoc: "fmin (fmin x y) z = fmin x (fmin y z)"
  by (cases x; cases y; cases z) (auto simp: min.assoc)
lemma fmax_assoc: "fmax (fmax x y) z = fmax x (fmax y z)"
  by (cases x; cases y; cases z) (auto simp: max.assoc)

lemma fold_fmin: "fold fmin xs acc = fmin acc (fold fmin xs NaN)"
proof (induction xs arbitrary: acc)
  case Nil
  show ?case by (simp add: fmin_NaN_right)
next
  case (Cons x xs)
  have "fold fmin (x # xs) acc = fmin (fmin x acc) (fold fmin xs NaN)"
    using Cons.IH [of "fmin x acc"] by simp
  also have "\<dots> = fmin acc (fmin x (fold fmin xs NaN))"
    by (simp add: fmin_commute [of x acc] fmin_assoc)
  also have "fmin x (fold fmin xs NaN) = fold fmin (x # xs) NaN"
    using Cons.IH [of "fmin x NaN"] by (simp add: fmin_NaN_right)
  finally show ?case .
qed

lemma nanmin_Nil: "nanmin [] = NaN" by (simp add: nanmin_def)
lemma nanmin_Cons: "nanmin (x # xs) = fmin x (nanmin xs)"
  unfolding nanmin_def using fold_fmin [of xs "fmin x NaN"] by (simp add: fmin_NaN_right)

lemma nanmin_NaN_iff: "nanmin xs = NaN \<longleftrightarrow> (\<forall>x\<in>set xs. x = NaN)"
proof (induction xs)
  case Nil show ?case by (simp add: nanmin_Nil)
next
  case (Cons x xs)
  show ?case using Cons.IH
    by (cases x; cases "nanmin xs") (auto simp: nanmin_Cons)
qed

lemma nanmin_PInf_iff:
  "nanmin xs = PInf \<longleftrightarrow> (\<exists>x\<in>set xs. x \<noteq> NaN) \<and> (\<forall>x\<in>set xs. x = NaN \<or> x = PInf)"
proof (induction xs)
  case Nil show ?case by (simp add: nanmin_Nil)
next
  case (Cons x xs)
  show ?case using Cons.IH nanmin_NaN_iff [of xs]
    by (cases x; cases "nanmin xs") (auto simp: nanmin_Cons)
qed

lemma nanmin_Fin_iff:
  "nanmin xs = Fin a \<longleftrightarrow> Fin a \<in> set xs \<and> (\<forall>b. Fin b \<in> set xs \<longrightarrow> a \<le> b)"
proof (induction xs arbitrary: a)
  case Nil show ?case by (simp add: nanmin_Nil)
next
  case (Cons x xs)
  show ?case
  proof (cases "nanmin xs")
    case NaN
    then have "\<forall>y\<in>set xs. y = NaN" by (simp add: nanmin_NaN_iff)
    then show ?thesis using NaN by (cases x) (auto simp: nanmin_Cons)
  next
    case PInf
    then have "\<forall>y\<in>set xs. y = NaN \<or> y = PInf" by (simp add: nanmin_PInf_iff)
    then show ?thesis using PInf by (cases x) (auto simp: nanmin_Cons)
  next
    case (Fin d)
    then have d: "Fin d \<in> set xs" "\<And>b. Fin b \<in> set xs \<Longrightarrow> d \<le> b"
      using Cons.IH [of d] by auto
    show ?thesis
    proof (cases x)
      case NaN
      then show ?thesis using Cons.IH [of a] by (auto simp: nanmin_Cons)
    next
      case PInf
      then show ?thesis using Cons.IH [of a] Fin by (auto simp: nanmin_Cons)
    next
      case (Fin c)
      have "nanmin (x # xs) = Fin (min c d)"
        using Fin \<open>nanmin xs = Fin d\<close> by (simp add: nanmin_Cons)
      moreover have "Fin a \<in> set (x # xs) \<and> (\<forall>b. Fin b \<in> set (x # xs) \<longrightarrow> a \<le> b) \<longleftrightarrow> a = min c d"
      proof
        assume h: "Fin a \<in> set (x # xs) \<and> (\<forall>b. Fin b \<in> set (x # xs) \<longrightarrow> a \<le> b)"
        then have "a \<le> c" "a \<le> d" using Fin d(1) by auto
        moreover have "a = c \<or> d \<le> a" using h Fin d(2) by auto
        ultimately show "a = min c d" by (auto simp: min_def)
      next
        assume "a = min c d"
        then show "Fin a \<in> set (x # xs) \<and> (\<forall>b. Fin b \<in> set (x # xs) \<longrightarrow> a \<le> b)"
          using Fin d by (auto simp: min_def dest: d(2))
      qed
      ultimately show ?thesis by auto
    qed
  qed
qed


lemma fold_fmax: "fold fmax xs acc = fmax acc (fold fmax xs NaN)"
proof (induction xs arbitrary: acc)
  case Nil
  show ?case by (simp add: fmax_NaN_right)
next
  case (Cons x xs)
  have "fold fmax (x # xs) acc = fmax (fmax x acc) (fold fmax xs NaN)"
    using Cons.IH [of "fmax x acc"] by simp
  also have "\<dots> = fmax acc (fmax x (fold fmax xs NaN))"
    by (simp add: fmax_commute [of x acc] fmax_assoc)
  also have "fmax x (fold fmax xs NaN) = fold fmax (x # xs) NaN"
    using Cons.IH [of "fmax x NaN"] by (simp add: fmax_NaN_right)
  finally show ?case .
qed

lemma nanmax_Nil: "nanmax [] = NaN" by (simp add: nanmax_def)
lemma nanmax_Cons: "nanmax (x # xs) = fmax x (nanmax xs)"
  unfolding nanmax_def using fold_fmax [of xs "fmax x NaN"] by (simp add: fmax_NaN_right)

lemma nanmax_NaN_iff: "nanmax xs = NaN \<longleftrightarrow> (\<forall>x\<in>set xs. x = NaN)"
proof (induction xs)
  case Nil show ?case by (simp add: nanmax_Nil)
next
  case (Cons x xs)
  show ?case using Cons.IH
    by (cases x; cases "nanmax xs") (auto simp: nanmax_Cons)
qed

lemma nanmax_PInf_iff: "nanmax xs = PInf \<longleftrightarrow> PInf \<in> set xs"
proof (induction xs)
  case Nil show ?case by (simp add: nanmax_Nil)
next
  case (Cons x xs)
  show ?case using Cons.IH
    by (cases x; cases "nanmax xs") (auto simp: nanmax_Cons)
qed

lemma nanmax_Fin_iff:
  "nanmax xs = Fin a \<longleftrightarrow>
     Fin a \<in> set xs \<and> PInf \<notin> set xs \<and> (\<forall>b. Fin b \<in> set xs \<longrightarrow> b \<le> a)"
proof (induction xs arbitrary: a)
  case Nil show ?case by (simp add: nanmax_Nil)
next
  case (Cons x xs)
  show ?case
  proof (cases "nanmax xs")
    case NaN
    then have "\<forall>y\<in>set xs. y = NaN" by (simp add: nanmax_NaN_iff)
    then show ?thesis using NaN by (cases x) (auto simp: nanmax_Cons)
  next
    case PInf
    then have "PInf \<in> set xs" by (simp add: nanmax_PInf_iff)
    then show ?thesis using PInf by (cases x) (auto simp: nanmax_Cons)
  next
    case (Fin d)
    then have d: "Fin d \<in> set xs" "PInf \<notin> set xs" "\<And>b. Fin b \<in> set xs \<Longrightarrow> b \<le> d"
      using Cons.IH [of d] by auto
    show ?thesis
    proof (cases x)
      case NaN
      then show ?thesis using Cons.IH [of a] by (auto simp: nanmax_Cons)
    next
      case PInf
      then show ?thesis using Fin by (auto simp: nanmax_Cons)
    next
      case (Fin c)
      have "nanmax (x # xs) = Fin (max c d)"
        using Fin \<open>nanmax xs = Fin d\<close> by (simp add: nanmax_Cons)
      moreover have "Fin a \<in> set (x # xs) \<and> PInf \<notin> set (x # xs) \<and>
          (\<forall>b. Fin b \<in> set (x # xs) \<longrightarrow> b \<le> a) \<longleftrightarrow> a = max c d"
      proof
        assume h: "Fin a \<in> set (x # xs) \<and> PInf \<notin> set (x # xs) \<and>
          (\<forall>b. Fin b \<in> set (x # xs) \<longrightarrow> b \<le> a)"
        then have "c \<le> a" "d \<le> a" using Fin d(1) by auto
        moreover have "a = c \<or> a \<le> d" using h Fin d(3) by auto
        ultimately show "a = max c d" by (auto simp: max_def)
      next
        assume "a = max c d"
        then show "Fin a \<in> set (x # xs) \<and> PInf \<notin> set (x # xs) \<and>
          (\<forall>b. Fin b \<in> set (x # xs) \<longrightarrow> b \<le> a)"
          using Fin d by (auto simp: max_def dest: d(3))
      qed
      ultimately show ?thesis by auto
    qed
  qed
qed

lemma nanmin_set_cong: "set xs = set ys \<Longrightarrow> nanmin xs = nanmin ys"
proof (cases "nanmin xs")
  case NaN
  assume "set xs = set ys"
  then show ?thesis using NaN nanmin_NaN_iff [of xs] nanmin_NaN_iff [of ys] by simp
next
  case PInf
  assume "set xs = set ys"
  then show ?thesis using PInf nanmin_PInf_iff [of xs] nanmin_PInf_iff [of ys] by simp
next
  case (Fin a)
  assume "set xs = set ys"
  then show ?thesis using Fin nanmin_Fin_iff [of xs a] nanmin_Fin_iff [of ys a] by simp
qed

lemma zero_to_inf_simps:
  "zero_to_inf NaN = NaN" "zero_to_inf PInf = PInf"
  "zero_to_inf (Fin a) = (if a = 0 then PInf else Fin a)"
  by (simp_all add: zero_to_inf_def)

lemma zero_to_inf_NaN_iff: "zero_to_inf x = NaN \<longleftrightarrow> x = NaN"
  by (cases x) (simp_all add: zero_to_inf_simps)

lemma zero_to_inf_PInf_iff: "zero_to_inf x = PInf \<longleftrightarrow> x = PInf \<or> x = Fin 0"
  by (cases x) (simp_all add: zero_to_inf_simps)

lemma zero_to_inf_Fin_iff: "zero_to_inf x = Fin a \<longleftrightarrow> x = Fin a \<and> a \<noteq> 0"
  by (cases x) (auto simp: zero_to_inf_simps)

lemma Fin_in_zero_to_inf:
  "Fin a \<in> set (map zero_to_inf col) \<longleftrightarrow> Fin a \<in> set col \<and> a \<noteq> 0"
  by (induction col) (auto simp: zero_to_inf_Fin_iff eq_commute [of "Fin a"])

lemma PInf_in_zero_to_inf:
  "PInf \<in> set (map zero_to_inf col) \<longleftrightarrow> PInf \<in> set col \<or> Fin 0 \<in> set col"
  by (induction col) (auto simp: zero_to_inf_PInf_iff eq_commute [of PInf])

lemma all_NaN_zero_to_inf:
  "(\<forall>x\<in>set (map zero_to_inf col). x = NaN) \<longleftrightarrow> (\<forall>x\<in>set col. x = NaN)"
  by (induction col) (auto simp: zero_to_inf_NaN_iff)

lemma only_zero_zero_to_inf:
  "(\<forall>x\<in>set (map zero_to_inf col). x = NaN \<or> x = PInf) \<longleftrightarrow>
   (\<forall>x\<in>set col. x = NaN \<or> x = PInf \<or> x = Fin 0)"
  by (induction col) (auto simp: zero_to_inf_NaN_iff zero_to_inf_PInf_iff)

lemma reduce_or_col_set_cong: "set xs = set ys \<Longrightarrow> reduce_or_col xs = reduce_or_col ys"
  unfolding reduce_or_col_def
  using nanmin_set_cong [of "map zero_to_inf xs" "map zero_to_inf ys"] by simp

lemma reduce_or_col_all_missing:
  assumes "\<forall>x\<in>set col. x = NaN"
  shows "reduce_or_col col = NaN"
proof -
  have "nanmin (map zero_to_inf col) = NaN"
    unfolding nanmin_NaN_iff all_NaN_zero_to_inf using assms .
  then show ?thesis by (simp add: reduce_or_col_def inf_to_zero_def isinf_def)
qed

lemma reduce_or_col_all_zero:
  assumes "\<exists>x\<in>set col. x \<noteq> NaN" and "\<forall>x\<in>set col. x = NaN \<or> x = PInf \<or> x = Fin 0"
  shows "reduce_or_col col = Fin 0"
proof -
  have "\<not> (\<forall>x\<in>set (map zero_to_inf col). x = NaN)"
    unfolding all_NaN_zero_to_inf using assms(1) by blast
  moreover have "\<forall>x\<in>set (map zero_to_inf col). x = NaN \<or> x = PInf"
    unfolding only_zero_zero_to_inf using assms(2) .
  ultimately have "nanmin (map zero_to_inf col) = PInf"
    unfolding nanmin_PInf_iff by blast
  then show ?thesis by (simp add: reduce_or_col_def inf_to_zero_def isinf_def)
qed

lemma reduce_or_col_min:
  assumes "Fin a \<in> set col" and "a \<noteq> 0"
    and "\<forall>b. Fin b \<in> set col \<and> b \<noteq> 0 \<longrightarrow> a \<le> b"
  shows "reduce_or_col col = Fin a"
proof -
  have "nanmin (map zero_to_inf col) = Fin a"
    unfolding nanmin_Fin_iff Fin_in_zero_to_inf using assms by blast
  then show ?thesis by (simp add: reduce_or_col_def inf_to_zero_def isinf_def)
qed

lemma count_nan_zero_to_inf:
  "length (filter isnan (map zero_to_inf col)) = length (filter isnan col)"
  by (induction col) (auto simp: isnan_def zero_to_inf_NaN_iff)

lemma reduce_and_col_unfold:
  "reduce_and_col k col =
     multiply_mask (inf_to_zero (nanmax (map zero_to_inf col))) (length (filter isnan col) = k)"
  unfolding reduce_and_col_def Let_def count_nan_zero_to_inf ..

lemma reduce_and_col_all_missing:
  assumes "\<forall>x\<in>set col. x = NaN"
  shows "reduce_and_col k col = NaN"
proof -
  have "nanmax (map zero_to_inf col) = NaN"
    unfolding nanmax_NaN_iff all_NaN_zero_to_inf using assms .
  then show ?thesis by (simp add: reduce_and_col_unfold inf_to_zero_def isinf_def)
qed

lemma reduce_and_col_count_differs:
  assumes "\<exists>x\<in>set col. x \<noteq> NaN" and "length (filter isnan col) \<noteq> k"
  shows "reduce_and_col k col = Fin 0"
proof -
  have "nanmax (map zero_to_inf col) \<noteq> NaN"
    unfolding nanmax_NaN_iff all_NaN_zero_to_inf using assms(1) by blast
  then show ?thesis using assms(2)
    by (cases "nanmax (map zero_to_inf col)")
       (simp_all add: reduce_and_col_unfold inf_to_zero_def isinf_def)
qed

lemma reduce_and_col_zero:
  assumes "Fin 0 \<in> set col \<or> PInf \<in> set col"
  shows "reduce_and_col k col = Fin 0"
proof -
  have "nanmax (map zero_to_inf col) = PInf"
    unfolding nanmax_PInf_iff PInf_in_zero_to_inf using assms by blast
  then show ?thesis by (simp add: reduce_and_col_unfold inf_to_zero_def isinf_def)
qed

lemma reduce_and_col_max:
  assumes "length (filter isnan col) = k" and "Fin 0 \<notin> set col" and "PInf \<notin> set col"
    and "Fin a \<in> set col" and "\<forall>b. Fin b \<in> set col \<longrightarrow> b \<le> a"
  shows "reduce_and_col k col = Fin a"
proof -
  have "a \<noteq> 0" using assms(2,4) by auto
  then have "nanmax (map zero_to_inf col) = Fin a"
    unfolding nanmax_Fin_iff Fin_in_zero_to_inf PInf_in_zero_to_inf using assms(2-5) by blast
  then show ?thesis using assms(1)
    by (simp add: reduce_and_col_unfold inf_to_zero_def isinf_def)
qed

lemma vstack_Inr_iff:
  "vstack args = Inr m \<longleftrightarrow>
     m = args \<and> args \<noteq> [] \<and> list_all (\<lambda>r. length r = length (hd args)) args"
  unfolding vstack_def by auto

lemma vstack_Inl_iff:
  "vstack args = Inl e \<longleftrightarrow>
     e = ValueError \<and> (args = [] \<or> \<not> list_all (\<lambda>r. length r = length (hd args)) args)"
  unfolding vstack_def by auto

lemma same_length_ok:
  assumes "args \<noteq> []" and "\<forall>r\<in>set args. length r = n"
  shows "list_all (\<lambda>r. length r = length (hd args)) args" and "length (hd args) = n"
proof -
  have "hd args \<in> set args" using assms(1) by simp
  then show "length (hd args) = n" using assms(2) by blast
  then show "list_all (\<lambda>r. length r = length (hd args)) args"
    unfolding list_all_iff using assms(2) by simp
qed

lemma same_length_set_cong:
  assumes "set args = set args'" and "args \<noteq> []"
  shows "list_all (\<lambda>r. length r = length (hd args)) args \<longleftrightarrow>
         list_all (\<lambda>r. length r = length (hd args')) args'"
    and "list_all (\<lambda>r. length r = length (hd args)) args \<Longrightarrow> length (hd args') = length (hd args)"
proof -
  have ne': "args' \<noteq> []" using assms set_empty [of args] set_empty [of args'] by simp
  have h: "hd args \<in> set args" using assms(2) by simp
  have h': "hd args' \<in> set args" using ne' assms(1) by simp
  show "list_all (\<lambda>r. length r = length (hd args)) args \<longleftrightarrow>
         list_all (\<lambda>r. length r = length (hd args')) args'"
  proof
    assume "list_all (\<lambda>r. length r = length (hd args)) args"
    then have a: "\<And>r. r \<in> set args \<Longrightarrow> length r = length (hd args)"
      unfolding list_all_iff by blast
    have "\<And>r. r \<in> set args' \<Longrightarrow> length r = length (hd args')"
      using a [OF h'] a assms(1) by simp
    then show "list_all (\<lambda>r. length r = length (hd args')) args'"
      unfolding list_all_iff by blast
  next
    assume "list_all (\<lambda>r. length r = length (hd args')) args'"
    then have a: "\<And>r. r \<in> set args \<Longrightarrow> length r = length (hd args')"
      unfolding list_all_iff assms(1) by blast
    have "\<And>r. r \<in> set args \<Longrightarrow> length r = length (hd args)"
      using a [OF h] a by simp
    then show "list_all (\<lambda>r. length r = length (hd args)) args"
      unfolding list_all_iff by blast
  qed
  show "list_all (\<lambda>r. length r = length (hd args)) args \<Longrightarrow> length (hd args') = length (hd args)"
    unfolding list_all_iff using h' by blast
qed

lemma nth_columns:
  "j < length (hd m) \<Longrightarrow> columns m ! j = map (\<lambda>r. r ! j) m"
  by (simp add: columns_def)

lemma length_columns: "length (columns m) = length (hd m)"
  by (simp add: columns_def)

lemma reduce_or_Inr:
  assumes "reduce_or args = Inr out"
  shows "length out = length (hd args)"
    and "j < length out \<Longrightarrow> out ! j = reduce_or_col (map (\<lambda>r. r ! j) args)"
proof -
  from assms obtain m where m: "vstack args = Inr m"
    and out: "out = map reduce_or_col (columns m)"
    by (auto simp: reduce_or_def ebind_def split: sum.splits)
  from m have "m = args" by (simp add: vstack_Inr_iff)
  with out show "length out = length (hd args)" by (simp add: length_columns)
  assume "j < length out"
  with out \<open>m = args\<close> show "out ! j = reduce_or_col (map (\<lambda>r. r ! j) args)"
    by (simp add: length_columns nth_columns)
qed

lemma reduce_or_total:
  assumes "args \<noteq> []" and "\<forall>r\<in>set args. length r = n"
  shows "\<exists>out. reduce_or args = Inr out \<and> length out = n"
proof -
  have "vstack args = Inr args"
    using same_length_ok(1) [OF assms] assms(1) by (simp add: vstack_Inr_iff)
  then show ?thesis using same_length_ok(2) [OF assms]
    by (simp add: reduce_or_def ebind_def length_columns)
qed

lemma reduce_or_set_cong:
  assumes "set args = set args'"
  shows "reduce_or args = reduce_or args'"
proof (cases "args = []")
  case True
  then have "args' = []" using assms set_empty [of args'] by simp
  with True show ?thesis by simp
next
  case False
  then have ne': "args' \<noteq> []" using assms set_empty [of args] by auto
  show ?thesis
  proof (cases "list_all (\<lambda>r. length r = length (hd args)) args")
    case all: True
    then have all': "list_all (\<lambda>r. length r = length (hd args')) args'"
      using same_length_set_cong(1) [OF assms False] by simp
    have len: "length (hd args') = length (hd args)"
      using same_length_set_cong(2) [OF assms False all] .
    have v: "vstack args = Inr args" "vstack args' = Inr args'"
      using False ne' all all' by (simp_all add: vstack_Inr_iff)
    have "map reduce_or_col (columns args) = map reduce_or_col (columns args')"
      unfolding columns_def len map_map
    proof (rule map_cong [OF refl])
      fix j
      have "set (map (\<lambda>r. r ! j) args) = set (map (\<lambda>r. r ! j) args')"
        using assms by simp
      then show "(reduce_or_col \<circ> (\<lambda>j. map (\<lambda>r. r ! j) args)) j =
                 (reduce_or_col \<circ> (\<lambda>j. map (\<lambda>r. r ! j) args')) j"
        using reduce_or_col_set_cong by simp
    qed
    then show ?thesis using v by (simp add: reduce_or_def ebind_def)
  next
    case nall: False
    then have nall': "\<not> list_all (\<lambda>r. length r = length (hd args')) args'"
      using same_length_set_cong(1) [OF assms False] by simp
    have "vstack args = Inl ValueError" "vstack args' = Inl ValueError"
      using nall nall' by (simp_all add: vstack_Inl_iff)
    then show ?thesis by (simp add: reduce_or_def ebind_def)
  qed
qed

lemma reduce_and_Inr:
  assumes "reduce_and tab ct_id cols args = Inr out"
  shows "\<exists>k. chain_count tab ct_id cols = Inr k \<and> length out = length (hd args) \<and>
             (\<forall>j<length out. out ! j = reduce_and_col k (map (\<lambda>r. r ! j) args))"
proof -
  from assms obtain k m where k: "chain_count tab ct_id cols = Inr k"
    and m: "vstack args = Inr m"
    and out: "out = map (reduce_and_col k) (columns m)"
    by (auto simp: reduce_and_def ebind_def split: sum.splits)
  from m have "m = args" by (simp add: vstack_Inr_iff)
  with out k show ?thesis by (simp add: length_columns nth_columns)
qed

lemma reduce_and_total:
  assumes "chain_count tab ct_id cols = Inr k" and "args \<noteq> []" and "\<forall>r\<in>set args. length r = n"
  shows "\<exists>out. reduce_and tab ct_id cols args = Inr out \<and> length out = n"
proof -
  have "vstack args = Inr args"
    using same_length_ok(1) [OF assms(2,3)] assms(2) by (simp add: vstack_Inr_iff)
  then show ?thesis using same_length_ok(2) [OF assms(2,3)] assms(1)
    by (simp add: reduce_and_def ebind_def length_columns)
qed

text \<open>
  Claim C2, as the code has it. The result of \<^verbatim>\<open>reduce_or\<close> depends on the set of its
  operands only (their order and repetitions do not matter). At every column it is NaN
  when all candidates are missing, 0 when some candidate is not missing and none is a
  nonzero number, and otherwise the minimum of the nonzero candidates.
\<close>

theorem reduce_or_min_nonzero:
  assumes "reduce_or args = Inr out" and "j < length out"
  shows "(\<forall>args'. set args' = set args \<longrightarrow> reduce_or args' = Inr out) \<and>
         (let col = map (\<lambda>r. r ! j) args in
            ((\<forall>x\<in>set col. x = NaN) \<longrightarrow> out ! j = NaN) \<and>
            ((\<exists>x\<in>set col. x \<noteq> NaN) \<and> (\<forall>x\<in>set col. x = NaN \<or> x = PInf \<or> x = Fin 0)
               \<longrightarrow> out ! j = Fin 0) \<and>
            (\<forall>a. Fin a \<in> set col \<and> a \<noteq> 0 \<and> (\<forall>b. Fin b \<in> set col \<and> b \<noteq> 0 \<longrightarrow> a \<le> b)
               \<longrightarrow> out ! j = Fin a))"
proof -
  define col where "col = map (\<lambda>r. r ! j) args"
  have perm: "\<forall>args'. set args' = set args \<longrightarrow> reduce_or args' = Inr out"
    using reduce_or_set_cong [of _ args] assms(1) by metis
  have eq: "out ! j = reduce_or_col col"
    unfolding col_def using reduce_or_Inr(2) [OF assms] .
  have c1: "(\<forall>x\<in>set col. x = NaN) \<longrightarrow> out ! j = NaN"
    unfolding eq using reduce_or_col_all_missing [of col] by blast
  have c2: "(\<exists>x\<in>set col. x \<noteq> NaN) \<and> (\<forall>x\<in>set col. x = NaN \<or> x = PInf \<or> x = Fin 0)
               \<longrightarrow> out ! j = Fin 0"
    unfolding eq using reduce_or_col_all_zero [of col] by blast
  have c3: "\<forall>a. Fin a \<in> set col \<and> a \<noteq> 0 \<and> (\<forall>b. Fin b \<in> set col \<and> b \<noteq> 0 \<longrightarrow> a \<le> b)
               \<longrightarrow> out ! j = Fin a"
    unfolding eq using reduce_or_col_min [of _ col] by blast
  show ?thesis
    unfolding Let_def col_def [symmetric] using perm c1 c2 c3 by blast
qed

text \<open>
  Claim C1, as the code has it. At every column of the result of \<^verbatim>\<open>reduce_and\<close>: when
  all candidates are missing the result is NaN, whatever the count of missing chains;
  when some candidate is not missing and the number of missing candidates differs from
  the number of \<^verbatim>\<open>"nan"\<close> entries of the clonotype's row in the listed columns, the
  result is 0; a candidate that is 0 makes the result 0; and when the counts agree and
  no candidate is 0, the result is the maximum of the candidates that are not missing.
\<close>

theorem reduce_and_same_count:
  assumes "reduce_and tab ct_id cols args = Inr out" and "j < length out"
  shows "\<exists>k. chain_count tab ct_id cols = Inr k \<and>
           (let col = map (\<lambda>r. r ! j) args; missing = length (filter isnan col) in
              ((\<forall>x\<in>set col. x = NaN) \<longrightarrow> out ! j = NaN) \<and>
              ((\<exists>x\<in>set col. x \<noteq> NaN) \<and> missing \<noteq> k \<longrightarrow> out ! j = Fin 0) \<and>
              (Fin 0 \<in> set col \<or> PInf \<in> set col \<longrightarrow> out ! j = Fin 0) \<and>
              (\<forall>a. missing = k \<and> Fin 0 \<notin> set col \<and> PInf \<notin> set col \<and> Fin a \<in> set col \<and>
                   (\<forall>b. Fin b \<in> set col \<longrightarrow> b \<le> a) \<longrightarrow> out ! j = Fin a))"
proof -
  define col where "col = map (\<lambda>r. r ! j) args"
  from reduce_and_Inr [OF assms(1)] assms(2) obtain k
    where k: "chain_count tab ct_id cols = Inr k" and eq: "out ! j = reduce_and_col k col"
    unfolding col_def by blast
  have c1: "(\<forall>x\<in>set col. x = NaN) \<longrightarrow> out ! j = NaN"
    unfolding eq using reduce_and_col_all_missing [of col k] by blast
  have c2: "(\<exists>x\<in>set col. x \<noteq> NaN) \<and> length (filter isnan col) \<noteq> k \<longrightarrow> out ! j = Fin 0"
    unfolding eq using reduce_and_col_count_differs [of col k] by blast
  have c3: "Fin 0 \<in> set col \<or> PInf \<in> set col \<longrightarrow> out ! j = Fin 0"
    unfolding eq using reduce_and_col_zero [of col k] by blast
  have c4: "\<forall>a. length (filter isnan col) = k \<and> Fin 0 \<notin> set col \<and> PInf \<notin> set col \<and>
                Fin a \<in> set col \<and> (\<forall>b. Fin b \<in> set col \<longrightarrow> b \<le> a) \<longrightarrow> out ! j = Fin a"
    unfolding eq using reduce_and_col_max [of col k] by blast
  show ?thesis
    unfolding Let_def col_def [symmetric] using k c1 c2 c3 c4 by blast
qed

theorem reduce_and_same_count_witness:
  "reduce_and example_table 1 [''IR_VJ_1_junction_aa'', ''IR_VJ_2_junction_aa'']
     [[Fin 0, Fin 2, NaN, Fin 4], [Fin 3, Fin 5, NaN, NaN]] = Inr [Fin 0, Fin 5, NaN, Fin 0] \<and>
   chain_count example_table 1 [''IR_VJ_1_junction_aa'', ''IR_VJ_2_junction_aa''] = Inr 0 \<and>
   [Fin 0, Fin 5, NaN, Fin 0] ! 1 = Fin 5"
proof -
  have h: "reduce_and example_table 1 [''IR_VJ_1_junction_aa'', ''IR_VJ_2_junction_aa'']
     [[Fin 0, Fin 2, NaN, Fin 4], [Fin 3, Fin 5, NaN, NaN]] = Inr [Fin 0, Fin 5, NaN, Fin 0]"
    by code_simp
  have j: "(1::nat) < length [Fin 0, Fin 5, NaN, Fin 0]" by simp
  have c: "chain_count example_table 1 [''IR_VJ_1_junction_aa'', ''IR_VJ_2_junction_aa''] = Inr 0"
    by code_simp
  show ?thesis using reduce_and_same_count [OF h j] h c by simp
qed

text \<open>
  Claim C1 as stated fails where all candidates are missing. For the first clonotype of
  the two-arm table under the dual-chain policy \<^verbatim>\<open>all\<close>, the first \<^verbatim>\<open>reduce_and\<close> of the
  VJ arm gets, at the column of the second clonotype, two missing candidates, while the
  first clonotype has one missing chain: the counts differ and the result is NaN, not 0.
\<close>

theorem reduce_and_all_missing_counterexample:
  "chain_count table_two_arms 0 [''IR_VJ_1_junction_aa'', ''IR_VJ_2_junction_aa''] = Inr 1 \<and>
   make_tmp_res lookup_two_arms cfg_two_arms_all table_two_arms 0 [0, 1] ''VJ'' 1 1
     = Inr [Fin 1, NaN] \<and>
   make_tmp_res lookup_two_arms cfg_two_arms_all table_two_arms 0 [0, 1] ''VJ'' 2 2
     = Inr [NaN, NaN] \<and>
   length (filter isnan (map (\<lambda>r. r ! 1) [[Fin 1, NaN], [NaN, NaN]])) = 2 \<and>
   reduce_and table_two_arms 0 [''IR_VJ_1_junction_aa'', ''IR_VJ_2_junction_aa'']
     [[Fin 1, NaN], [NaN, NaN]] = Inr [Fin 1, NaN] \<and>
   [Fin 1, NaN] ! 1 \<noteq> Fin 0"
  by code_simp

theorem reduce_or_min_nonzero_witness:
  "reduce_or [[Fin 0, Fin 0, NaN, Fin 4], [Fin 3, Fin 0, NaN, Fin 2], [Fin 0, NaN, NaN, Fin 0]]
     = Inr [Fin 3, Fin 0, NaN, Fin 2] \<and>
   reduce_or [[Fin 3, Fin 0, NaN, Fin 2], [Fin 0, NaN, NaN, Fin 0], [Fin 0, Fin 0, NaN, Fin 4],
              [Fin 3, Fin 0, NaN, Fin 2]]
     = Inr [Fin 3, Fin 0, NaN, Fin 2] \<and>
   reduce_or [[Fin 0], [Fin 3], [Fin 0]] = Inr [Fin 3] \<and>
   reduce_or [[Fin 0], [Fin 0]] = Inr [Fin 0]"
proof -
  have h: "reduce_or [[Fin 0, Fin 0, NaN, Fin 4], [Fin 3, Fin 0, NaN, Fin 2], [Fin 0, NaN, NaN, Fin 0]]
     = Inr [Fin 3, Fin 0, NaN, Fin 2]"
    by code_simp
  have j: "(3::nat) < length [Fin 3, Fin 0, NaN, Fin 2]" by simp
  have e: "reduce_or [[Fin 0], [Fin 3], [Fin 0]] = Inr [Fin 3]"
          "reduce_or [[Fin 0], [Fin 0]] = Inr [Fin 0]"
    by code_simp+
  from reduce_or_min_nonzero [OF h j]
  have "set [[Fin 3, Fin 0, NaN, Fin 2], [Fin 0, NaN, NaN, Fin 0], [Fin 0, Fin 0, NaN, Fin 4],
              [Fin 3, Fin 0, NaN, Fin 2]]
        = set [[Fin 0, Fin 0, NaN, Fin 4], [Fin 3, Fin 0, NaN, Fin 2], [Fin 0, NaN, NaN, Fin 0]]
     \<longrightarrow> reduce_or [[Fin 3, Fin 0, NaN, Fin 2], [Fin 0, NaN, NaN, Fin 0], [Fin 0, Fin 0, NaN, Fin 4],
              [Fin 3, Fin 0, NaN, Fin 2]] = Inr [Fin 3, Fin 0, NaN, Fin 2]"
    by blast
  then show ?thesis using h e by auto
qed

text \<open>
  Claim C2 as stated fails where every candidate is missing. For the first clonotype of
  the two-arm table under the dual-chain policy \<^verbatim>\<open>any\<close>, the \<^verbatim>\<open>reduce_or\<close> of the VJ arm
  gets four missing candidates at the column of the second clonotype, and the result
  there is NaN, not 0.
\<close>

theorem reduce_or_all_missing_counterexample:
  "make_tmp_res lookup_two_arms cfg_two_arms_any table_two_arms 0 [0, 1] ''VJ'' 1 1
     = Inr [Fin 1, NaN] \<and>
   make_tmp_res lookup_two_arms cfg_two_arms_any table_two_arms 0 [0, 1] ''VJ'' 1 2
     = Inr [NaN, NaN] \<and>
   make_tmp_res lookup_two_arms cfg_two_arms_any table_two_arms 0 [0, 1] ''VJ'' 2 2
     = Inr [NaN, NaN] \<and>
   make_tmp_res lookup_two_arms cfg_two_arms_any table_two_arms 0 [0, 1] ''VJ'' 2 1
     = Inr [Fin 0, NaN] \<and>
   reduce_or [[Fin 1, NaN], [NaN, NaN], [NaN, NaN], [Fin 0, NaN]] = Inr [Fin 1, NaN] \<and>
   [Fin 1, NaN] ! 1 \<noteq> Fin 0"
  by code_simp

section \<open>Properties of the table, the aggregator and the orchestrator\<close>

lemma index_of_in:
  "x \<in> set xs \<Longrightarrow> \<exists>k. index_of x xs = Some k \<and> k < length xs \<and> xs ! k = x"
  by (induction xs) auto

lemma set_unique_rows: "set (unique_rows xs) = set xs"
  by (simp add: unique_rows_def)

lemma distinct_unique_rows: "distinct (unique_rows xs)"
  by (simp add: unique_rows_def)

lemma ebind_Inr_iff: "ebind m f = Inr y \<longleftrightarrow> (\<exists>x. m = Inr x \<and> f x = Inr y)"
  by (cases m) (simp_all add: ebind_def)

lemma ebind_Inl_iff: "ebind m f = Inl e \<longleftrightarrow> m = Inl e \<or> (\<exists>x. m = Inr x \<and> f x = Inl e)"
  by (cases m) (simp_all add: ebind_def)

lemma make_clonotype_table_unfold:
  "make_clonotype_table is_na cfg adata =
     (if \<not> distinct (map obs_name (obs adata)) then Inl ValueError
      else if \<not> list_all (\<lambda>c. c \<in> set (obs_columns adata)) (clonotype_cols cfg) then Inl KeyError
      else if \<not> distinct (clonotype_cols cfg) then Inl ValueError
      else if unique_rows (map snd (obs_filtered is_na cfg adata)) = [] then Inl ValueError
      else if within_group cfg = Some [] then Inl ValueError
      else ebind (if ''2'' \<in> set (dual_ir_cols cfg)
                  then check_arms (built_table is_na cfg adata) (sequence_key cfg) (receptor_arm_cols cfg)
                  else Inr ())
             (\<lambda>_. Inr (built_table is_na cfg adata,
                        cell_indices_of (obs_filtered is_na cfg adata)
                          (unique_rows (map snd (obs_filtered is_na cfg adata))))))"
  unfolding make_clonotype_table_def built_table_def Let_def by simp

lemma make_clonotype_table_Inr:
  assumes "make_clonotype_table is_na cfg adata = Inr (tab, ci)"
  shows "distinct (map obs_name (obs adata))"
    and "set (clonotype_cols cfg) \<subseteq> set (obs_columns adata)"
    and "distinct (clonotype_cols cfg)"
    and "unique_rows (map snd (obs_filtered is_na cfg adata)) \<noteq> []"
    and "tab = built_table is_na cfg adata"
    and "ci = cell_indices_of (obs_filtered is_na cfg adata)
                (unique_rows (map snd (obs_filtered is_na cfg adata)))"
    and "within_group cfg \<noteq> Some []"
  using assms unfolding make_clonotype_table_unfold
  by (auto simp: ebind_Inr_iff list_all_iff split: if_splits)

lemma map_snd_obs_filtered:
  "map snd (obs_filtered is_na cfg adata) = map (clonotype_key is_na cfg) (filter has_ir (obs adata))"
  by (simp add: obs_filtered_def comp_def)

lemma length_clonotype_key: "length (clonotype_key is_na cfg c) = length (clonotype_cols cfg)"
  by (simp add: clonotype_key_def)

lemma zip_take_drop:
  "map (\<lambda>(r, g). r @ g) (zip (map (take k) xs) (map (drop k) xs)) = xs"
  by (induction xs) auto

lemma full_rows_built_table:
  "full_rows (built_table is_na cfg adata) = unique_rows (map snd (obs_filtered is_na cfg adata))"
proof (cases "within_group cfg")
  case None
  define K where "K = length (cdr3_cols cfg @ v_gene_cols cfg)"
  have "\<forall>r\<in>set (unique_rows (map snd (obs_filtered is_na cfg adata))). length r = K"
    using None by (auto simp: set_unique_rows map_snd_obs_filtered length_clonotype_key
        clonotype_cols_def K_def)
  then have "map (take K) (unique_rows (map snd (obs_filtered is_na cfg adata)))
        = unique_rows (map snd (obs_filtered is_na cfg adata))"
    by (simp add: map_idI)
  then show ?thesis using None
    by (simp add: full_rows_def built_table_def Let_def K_def)
next
  case (Some g)
  then show ?thesis
    by (simp add: full_rows_def built_table_def Let_def zip_take_drop)
qed

lemma norm_value_cases:
  "norm_value is_na v = (if v = Missing \<or> is_na (astype_str v) then ''nan'' else astype_str v)"
  by (cases v) (simp_all add: norm_value_def)

text \<open>
  Claim C10. When the table is built, its rows (with the group tuple appended) are
  distinct and are exactly the keys of the cells with \<^verbatim>\<open>has_ir\<close>; every entry of a key
  is the string of the cell's value, or \<^verbatim>\<open>"nan"\<close> when the value is missing or \<^verbatim>\<open>_is_na\<close>
  holds of its string; so two cells that differ only in that one has the string
  \<^verbatim>\<open>"nan"\<close> where the other has a missing value have the same key and fall into the
  same group.
\<close>

theorem clonotype_table_values:
  assumes "make_clonotype_table is_na cfg adata = Inr (tab, cell_indices)"
  shows "distinct (full_rows tab) \<and>
         set (full_rows tab) = clonotype_key is_na cfg ` {c \<in> set (obs adata). has_ir c} \<and>
         (\<forall>c. clonotype_key is_na cfg c =
               map (\<lambda>col. if obs_entry c col = Missing \<or> is_na (astype_str (obs_entry c col))
                           then ''nan'' else astype_str (obs_entry c col))
                   (clonotype_cols cfg)) \<and>
         (\<forall>c1 c2. (\<forall>col\<in>set (clonotype_cols cfg).
                      obs_entry c1 col = obs_entry c2 col \<or>
                      obs_entry c1 col \<in> {Missing, Strval ''nan''} \<and>
                      obs_entry c2 col \<in> {Missing, Strval ''nan''})
                   \<longrightarrow> clonotype_key is_na cfg c1 = clonotype_key is_na cfg c2)"
proof -
  have tab: "tab = built_table is_na cfg adata"
    using make_clonotype_table_Inr(5) [OF assms] .
  have rows: "full_rows tab = unique_rows (map (clonotype_key is_na cfg) (filter has_ir (obs adata)))"
    unfolding tab full_rows_built_table map_snd_obs_filtered ..
  have a: "distinct (full_rows tab)" unfolding rows by (rule distinct_unique_rows)
  have b: "set (full_rows tab) = clonotype_key is_na cfg ` {c \<in> set (obs adata). has_ir c}"
    unfolding rows set_unique_rows by auto
  have c: "\<forall>c. clonotype_key is_na cfg c =
               map (\<lambda>col. if obs_entry c col = Missing \<or> is_na (astype_str (obs_entry c col))
                           then ''nan'' else astype_str (obs_entry c col))
                   (clonotype_cols cfg)"
    unfolding clonotype_key_def norm_value_cases by simp
  have d: "\<forall>c1 c2. (\<forall>col\<in>set (clonotype_cols cfg).
                      obs_entry c1 col = obs_entry c2 col \<or>
                      obs_entry c1 col \<in> {Missing, Strval ''nan''} \<and>
                      obs_entry c2 col \<in> {Missing, Strval ''nan''})
                   \<longrightarrow> clonotype_key is_na cfg c1 = clonotype_key is_na cfg c2"
  proof (intro allI impI)
    fix c1 c2 :: cell
    assume h: "\<forall>col\<in>set (clonotype_cols cfg).
                      obs_entry c1 col = obs_entry c2 col \<or>
                      obs_entry c1 col \<in> {Missing, Strval ''nan''} \<and>
                      obs_entry c2 col \<in> {Missing, Strval ''nan''}"
    have "norm_value is_na (obs_entry c1 col) = norm_value is_na (obs_entry c2 col)"
      if "col \<in> set (clonotype_cols cfg)" for col
      using h that by (auto simp: norm_value_def)
    then show "clonotype_key is_na cfg c1 = clonotype_key is_na cfg c2"
      unfolding clonotype_key_def by simp
  qed
  from a b c d show ?thesis by blast
qed

lemma check_arms_orphan:
  assumes "\<forall>a\<in>set arms. \<exists>p s. get_col tab (ir_col a ''1'' key) = Inr p \<and>
                               get_col tab (ir_col a ''2'' key) = Inr s"
    and "arm \<in> set arms"
    and "get_col tab (ir_col arm ''1'' key) = Inr p"
    and "get_col tab (ir_col arm ''2'' key) = Inr s"
    and "list_ex (\<lambda>(p, s). p = ''nan'' \<and> s \<noteq> ''nan'') (zip p s)"
  shows "check_arms tab key arms = Inl AssertionError"
  using assms(1,2)
proof (induction arms)
  case Nil
  then show ?case by simp
next
  case (Cons a arms)
  from Cons.prems(1) obtain p' s' where a: "get_col tab (ir_col a ''1'' key) = Inr p'"
    "get_col tab (ir_col a ''2'' key) = Inr s'" by auto
  show ?case
  proof (cases "list_ex (\<lambda>(p, s). p = ''nan'' \<and> s \<noteq> ''nan'') (zip p' s')")
    case True
    then show ?thesis using a by (simp add: ebind_def)
  next
    case False
    then have "arm \<noteq> a" using a assms(3,4,5) by auto
    then have "arm \<in> set arms" using Cons.prems(2) by simp
    then have "check_arms tab key arms = Inl AssertionError"
      using Cons.IH Cons.prems(1) by simp
    then show ?thesis using a False by (simp add: ebind_def)
  qed
qed

lemma key_nth:
  assumes "k < length (cdr3_cols cfg @ v_gene_cols cfg)"
  shows "clonotype_key is_na cfg c ! k =
           norm_value is_na (obs_entry c ((cdr3_cols cfg @ v_gene_cols cfg) ! k))"
proof -
  have "clonotype_cols cfg ! k = (cdr3_cols cfg @ v_gene_cols cfg) ! k"
    using assms unfolding clonotype_cols_def
    by (metis append.assoc nth_append)
  moreover have "k < length (clonotype_cols cfg)"
    using assms unfolding clonotype_cols_def by simp
  ultimately show ?thesis unfolding clonotype_key_def by simp
qed

lemma get_col_built_table:
  assumes "name \<in> set (cdr3_cols cfg @ v_gene_cols cfg)"
  shows "\<exists>k<length (cdr3_cols cfg @ v_gene_cols cfg).
           (cdr3_cols cfg @ v_gene_cols cfg) ! k = name \<and>
           get_col (built_table is_na cfg adata) name =
             Inr (map (\<lambda>r. r ! k) (unique_rows (map snd (obs_filtered is_na cfg adata))))"
proof -
  define K where "K = length (cdr3_cols cfg @ v_gene_cols cfg)"
  from index_of_in [OF assms] obtain k
    where k: "index_of name (cdr3_cols cfg @ v_gene_cols cfg) = Some k" "k < K"
      "(cdr3_cols cfg @ v_gene_cols cfg) ! k = name"
    unfolding K_def by blast
  have "map (\<lambda>r. r ! k) (map (take K) rows) = map (\<lambda>r. r ! k) rows" for rows :: "string list list"
    using k(2) by simp
  then have "get_col (built_table is_na cfg adata) name =
             Inr (map (\<lambda>r. r ! k) (unique_rows (map snd (obs_filtered is_na cfg adata))))"
    using k(1) unfolding get_col_def built_table_def Let_def K_def by simp
  then show ?thesis using k(2,3) unfolding K_def by blast
qed

lemma ir_col_in_cdr3_cols:
  assumes "arm \<in> set (receptor_arm_cols cfg)" and "i \<in> set (dual_ir_cols cfg)"
  shows "ir_col arm i (sequence_key cfg) \<in> set (cdr3_cols cfg)"
  using assms unfolding cdr3_cols_def by auto

text \<open>
  Claim C6, as the code has it. When the dual-chain policy is not \<^verbatim>\<open>primary_only\<close>, and
  a cell with \<^verbatim>\<open>has_ir\<close> has, in an arm that the configuration uses, a secondary sequence
  that is not \<^verbatim>\<open>"nan"\<close> and a primary sequence that is \<^verbatim>\<open>"nan"\<close> after normalisation,
  then building the table raises; it is the AssertionError when the names of the cells
  are unique, the columns exist, no grouping column occurs twice and \<^verbatim>\<open>within_group\<close> is
  not the empty list.
\<close>

theorem orphan_secondary_chain_raises:
  assumes "dual_ir cfg \<noteq> Primary_only"
    and "arm \<in> set (receptor_arm_cols cfg)"
    and "c \<in> set (obs adata)" and "has_ir c"
    and "norm_value is_na (obs_entry c (ir_col arm ''1'' (sequence_key cfg))) = ''nan''"
    and "norm_value is_na (obs_entry c (ir_col arm ''2'' (sequence_key cfg))) \<noteq> ''nan''"
  shows "(\<exists>e. make_clonotype_table is_na cfg adata = Inl e) \<and>
         (distinct (map obs_name (obs adata)) \<and>
          set (clonotype_cols cfg) \<subseteq> set (obs_columns adata) \<and>
          distinct (clonotype_cols cfg) \<and> within_group cfg \<noteq> Some []
          \<longrightarrow> make_clonotype_table is_na cfg adata = Inl AssertionError)"
proof -
  define tab where "tab = built_table is_na cfg adata"
  define rows where "rows = unique_rows (map snd (obs_filtered is_na cfg adata))"
  define key where "key = sequence_key cfg"
  have two: "dual_ir_cols cfg = [''1'', ''2'']" using assms(1) by (simp add: dual_ir_cols_def)
  have cols: "\<And>a i. a \<in> set (receptor_arm_cols cfg) \<Longrightarrow> i \<in> {''1'', ''2''} \<Longrightarrow>
      ir_col a i key \<in> set (cdr3_cols cfg @ v_gene_cols cfg)"
    using ir_col_in_cdr3_cols [of _ cfg] two unfolding key_def by auto
  have all: "\<forall>a\<in>set (receptor_arm_cols cfg). \<exists>p s. get_col tab (ir_col a ''1'' key) = Inr p \<and>
                               get_col tab (ir_col a ''2'' key) = Inr s"
  proof
    fix a assume a: "a \<in> set (receptor_arm_cols cfg)"
    from get_col_built_table [OF cols [OF a, of "''1''"], of is_na adata]
         get_col_built_table [OF cols [OF a, of "''2''"], of is_na adata]
    show "\<exists>p s. get_col tab (ir_col a ''1'' key) = Inr p \<and> get_col tab (ir_col a ''2'' key) = Inr s"
      unfolding tab_def by auto
  qed
  from get_col_built_table [OF cols [OF assms(2), of "''1''"], of is_na adata]
  obtain k1 where k1: "k1 < length (cdr3_cols cfg @ v_gene_cols cfg)"
      "(cdr3_cols cfg @ v_gene_cols cfg) ! k1 = ir_col arm ''1'' key"
      "get_col tab (ir_col arm ''1'' key) = Inr (map (\<lambda>r. r ! k1) rows)"
    unfolding tab_def rows_def by auto
  from get_col_built_table [OF cols [OF assms(2), of "''2''"], of is_na adata]
  obtain k2 where k2: "k2 < length (cdr3_cols cfg @ v_gene_cols cfg)"
      "(cdr3_cols cfg @ v_gene_cols cfg) ! k2 = ir_col arm ''2'' key"
      "get_col tab (ir_col arm ''2'' key) = Inr (map (\<lambda>r. r ! k2) rows)"
    unfolding tab_def rows_def by auto
  have in_rows: "clonotype_key is_na cfg c \<in> set rows"
    unfolding rows_def set_unique_rows map_snd_obs_filtered using assms(3,4) by simp
  have p: "clonotype_key is_na cfg c ! k1 = ''nan''"
    using key_nth [OF k1(1), of is_na c] k1(2) assms(5) unfolding key_def by simp
  have s: "clonotype_key is_na cfg c ! k2 \<noteq> ''nan''"
    using key_nth [OF k2(1), of is_na c] k2(2) assms(6) unfolding key_def by simp
  have "(clonotype_key is_na cfg c ! k1, clonotype_key is_na cfg c ! k2)
          \<in> set (zip (map (\<lambda>r. r ! k1) rows) (map (\<lambda>r. r ! k2) rows))"
  proof -
    have "(clonotype_key is_na cfg c, clonotype_key is_na cfg c) \<in> set (zip rows rows)"
      using in_rows by (simp add: zip_same)
    then have "(\<lambda>(x, y). (x ! k1, y ! k2)) (clonotype_key is_na cfg c, clonotype_key is_na cfg c)
                 \<in> (\<lambda>(x, y). (x ! k1, y ! k2)) ` set (zip rows rows)"
      by (rule imageI)
    then show ?thesis by (simp add: zip_map_map)
  qed
  then have ex: "list_ex (\<lambda>(p, s). p = ''nan'' \<and> s \<noteq> ''nan'')
                   (zip (map (\<lambda>r. r ! k1) rows) (map (\<lambda>r. r ! k2) rows))"
    unfolding list_ex_iff using p s by (intro bexI [of _ "(clonotype_key is_na cfg c ! k1, clonotype_key is_na cfg c ! k2)"]) auto
  have chk: "check_arms tab key (receptor_arm_cols cfg) = Inl AssertionError"
    using check_arms_orphan [OF all assms(2) k1(3) k2(3) ex] .
  have ne: "rows \<noteq> []" using in_rows by auto
  have "\<not> distinct (map obs_name (obs adata)) \<or>
        \<not> list_all (\<lambda>c. c \<in> set (obs_columns adata)) (clonotype_cols cfg) \<or>
        \<not> distinct (clonotype_cols cfg) \<or> within_group cfg = Some [] \<or>
        make_clonotype_table is_na cfg adata = Inl AssertionError"
    unfolding make_clonotype_table_unfold
    using chk ne two unfolding tab_def rows_def key_def by (simp add: ebind_def)
  moreover have "\<not> distinct (map obs_name (obs adata)) \<Longrightarrow>
      make_clonotype_table is_na cfg adata = Inl ValueError"
    unfolding make_clonotype_table_unfold by simp
  moreover have "\<not> list_all (\<lambda>c. c \<in> set (obs_columns adata)) (clonotype_cols cfg) \<Longrightarrow>
      \<exists>e. make_clonotype_table is_na cfg adata = Inl e"
    unfolding make_clonotype_table_unfold by simp
  moreover have "\<not> distinct (clonotype_cols cfg) \<Longrightarrow>
      \<exists>e. make_clonotype_table is_na cfg adata = Inl e"
    unfolding make_clonotype_table_unfold by simp
  moreover have "within_group cfg = Some [] \<Longrightarrow>
      \<exists>e. make_clonotype_table is_na cfg adata = Inl e"
    unfolding make_clonotype_table_unfold by simp
  ultimately show ?thesis unfolding list_all_iff by blast
qed

lemma sequence_err_Inr:
  "sequence_err ms = Inr xs \<Longrightarrow> length xs = length ms \<and> (\<forall>i<length ms. ms ! i = Inr (xs ! i))"
proof (induction ms arbitrary: xs)
  case Nil
  then show ?case by simp
next
  case (Cons m ms)
  from Cons.prems obtain x xs' where m: "m = Inr x" and r: "sequence_err ms = Inr xs'"
    and xs: "xs = x # xs'"
    by (auto split: sum.splits)
  from Cons.IH [OF r] have "length xs' = length ms" "\<forall>i<length ms. ms ! i = Inr (xs' ! i)"
    by simp_all
  then show ?case using m xs by (auto simp: nth_Cons split: nat.splits)
qed

lemma sequence_err_total:
  "(\<forall>m\<in>set ms. \<exists>x. m = Inr x) \<Longrightarrow> \<exists>xs. sequence_err ms = Inr xs"
proof (induction ms)
  case Nil
  then show ?case by simp
next
  case (Cons m ms)
  then obtain x xs where "m = Inr x" "sequence_err ms = Inr xs" by auto
  then show ?case by simp
qed

lemma or_mask_Inr:
  "or_mask a b = Inr c \<longleftrightarrow> length a = length b \<and> c = map (\<lambda>(x, y). x \<or> y) (zip a b)"
  by (auto simp: or_mask_def)

lemma reduce_or_mask_Inr:
  "reduce_or_mask acc ms = Inr out \<Longrightarrow>
     (\<forall>m\<in>set ms. length m = length acc) \<and> length out = length acc \<and>
     (\<forall>j<length acc. out ! j = (acc ! j \<or> (\<exists>m\<in>set ms. m ! j)))"
proof (induction ms arbitrary: acc)
  case Nil
  then show ?case by simp
next
  case (Cons m ms)
  from Cons.prems obtain acc' where a: "or_mask acc m = Inr acc'"
    and r: "reduce_or_mask acc' ms = Inr out"
    by (auto simp: ebind_Inr_iff)
  from a have len: "length acc = length m" and acc': "acc' = map (\<lambda>(x, y). x \<or> y) (zip acc m)"
    by (simp_all add: or_mask_Inr)
  have len': "length acc' = length acc" using len acc' by simp
  have nth: "\<And>j. j < length acc \<Longrightarrow> acc' ! j = (acc ! j \<or> m ! j)"
    using len acc' by simp
  from Cons.IH [OF r] have ih: "\<forall>m\<in>set ms. length m = length acc'" "length out = length acc'"
    "\<forall>j<length acc'. out ! j = (acc' ! j \<or> (\<exists>m\<in>set ms. m ! j))"
    by simp_all
  show ?case using ih len len' nth by auto
qed

lemma reduce_or_mask_total:
  "(\<forall>m\<in>set ms. length m = length acc) \<Longrightarrow> \<exists>out. reduce_or_mask acc ms = Inr out"
proof (induction ms arbitrary: acc)
  case Nil
  then show ?case by simp
next
  case (Cons m ms)
  define acc' where "acc' = map (\<lambda>(x, y). x \<or> y) (zip acc m)"
  have a: "or_mask acc m = Inr acc'" using Cons.prems by (simp add: or_mask_def acc'_def)
  have "length acc' = length acc" using Cons.prems by (simp add: acc'_def)
  then have "\<forall>m\<in>set ms. length m = length acc'" using Cons.prems by simp
  from Cons.IH [OF this] obtain out where "reduce_or_mask acc' ms = Inr out" by blast
  then show ?case using a by (simp add: ebind_def)
qed

lemma has_distance_Inr:
  assumes "has_distance rows = Inr msk"
  shows "rows \<noteq> []" and "\<forall>r\<in>set rows. length r = length msk"
    and "\<forall>j<length msk. msk ! j = (\<exists>r\<in>set rows. r ! j \<noteq> 0)"
proof -
  from assms obtain r rs where rows: "rows = r # rs"
    and red: "reduce_or_mask (nonzero_mask r) (map nonzero_mask rs) = Inr msk"
    by (auto simp: has_distance_def split: list.splits)
  show "rows \<noteq> []" using rows by simp
  from reduce_or_mask_Inr [OF red]
  have l: "\<forall>m\<in>set (map nonzero_mask rs). length m = length (nonzero_mask r)"
    and lm: "length msk = length (nonzero_mask r)"
    and v: "\<forall>j<length (nonzero_mask r). msk ! j = (nonzero_mask r ! j \<or> (\<exists>m\<in>set (map nonzero_mask rs). m ! j))"
    by simp_all
  have lr: "length r = length msk" using lm by (simp add: nonzero_mask_def)
  have lrs: "\<forall>x\<in>set rs. length x = length msk" using l lm by (simp add: nonzero_mask_def)
  show "\<forall>r\<in>set rows. length r = length msk" using rows lr lrs by simp
  show "\<forall>j<length msk. msk ! j = (\<exists>r\<in>set rows. r ! j \<noteq> 0)"
  proof (intro allI impI)
    fix j assume j: "j < length msk"
    then have "msk ! j = (nonzero_mask r ! j \<or> (\<exists>m\<in>set (map nonzero_mask rs). m ! j))"
      using v lm by simp
    moreover have "nonzero_mask r ! j = (r ! j \<noteq> 0)" using j lr by (simp add: nonzero_mask_def)
    moreover have "(\<exists>m\<in>set (map nonzero_mask rs). m ! j) = (\<exists>x\<in>set rs. x ! j \<noteq> 0)"
      using j lrs by (auto simp: nonzero_mask_def)
    ultimately show "msk ! j = (\<exists>r\<in>set rows. r ! j \<noteq> 0)" using rows by simp
  qed
qed

lemma has_distance_total:
  assumes "rows \<noteq> []" and "\<forall>r\<in>set rows. length r = n"
  shows "\<exists>msk. has_distance rows = Inr msk \<and> length msk = n"
proof -
  from assms(1) obtain r rs where rows: "rows = r # rs" by (cases rows) auto
  have "\<forall>m\<in>set (map nonzero_mask rs). length m = length (nonzero_mask r)"
    using assms(2) rows by (simp add: nonzero_mask_def)
  from reduce_or_mask_total [OF this] obtain msk
    where m: "reduce_or_mask (nonzero_mask r) (map nonzero_mask rs) = Inr msk" by blast
  then have h: "has_distance rows = Inr msk" using rows by (simp add: has_distance_def)
  from has_distance_Inr(2) [OF h] assms(2) rows have "length msk = n" by auto
  with h show ?thesis by blast
qed

lemma set_mask_indices: "set (mask_indices msk) = {j. j < length msk \<and> msk ! j}"
  by (auto simp: mask_indices_def)

lemma make_tmp_res_length:
  "make_tmp_res lookup cfg tab ct_id indices arm c1 c2 = Inr r \<Longrightarrow> length r = length indices"
  by (auto simp: make_tmp_res_def ebind_Inr_iff Let_def dest!: sequence_err_Inr)

lemma reduce_or_length: "reduce_or (a # args) = Inr out \<Longrightarrow> length out = length a"
  using reduce_or_Inr(1) [of "a # args" out] by simp

lemma reduce_and_length: "reduce_and tab ct_id cols (a # args) = Inr out \<Longrightarrow> length out = length a"
  using reduce_and_Inr [of tab ct_id cols "a # args" out] by auto

lemma arm_res_length:
  assumes "arm_res lookup cfg tab ct_id indices arm = Inr r"
  shows "length r = length indices"
proof (cases "dual_ir cfg")
  case Primary_only
  then show ?thesis using assms make_tmp_res_length
    by (simp add: arm_res_def Let_def)
next
  case Dual_all
  then obtain r11 r22 a r12 r21 b where
    "make_tmp_res lookup cfg tab ct_id indices arm 1 1 = Inr r11"
    "reduce_and tab ct_id (map (\<lambda>c. ir_col arm (chain_str c) (sequence_key cfg)) [1, 2]) [r11, r22] = Inr a"
    "reduce_or [a, b] = Inr r"
    using assms by (auto simp: arm_res_def Let_def ebind_Inr_iff)
  then show ?thesis
    using make_tmp_res_length reduce_and_length reduce_or_length by metis
next
  case Dual_any
  then obtain r11 r12 r22 r21 where
    "make_tmp_res lookup cfg tab ct_id indices arm 1 1 = Inr r11"
    "reduce_or [r11, r12, r22, r21] = Inr r"
    using assms by (auto simp: arm_res_def Let_def ebind_Inr_iff)
  then show ?thesis
    using make_tmp_res_length reduce_or_length by metis
qed

lemma receptor_arm_cols_nonempty: "receptor_arm_cols cfg \<noteq> []"
  by (cases "receptor_arms cfg") (simp_all add: receptor_arm_cols_def)

lemma dist_for_clonotype_Inr:
  assumes "dist_for_clonotype lookup cfg tab ct_id = Inr row"
  shows "\<exists>msk. has_distance (lookup_values lookup cfg ct_id) = Inr msk \<and>
           sr_ncols row = length msk \<and> sr_indices row = mask_indices msk \<and>
           length (sr_data row) = length (sr_indices row)"
proof -
  from assms obtain msk res stacked res' where
    msk: "has_distance (lookup_values lookup cfg ct_id) = Inr msk"
    and res: "sequence_err (map (arm_res lookup cfg tab ct_id (mask_indices msk)) (receptor_arm_cols cfg)) = Inr res"
    and st: "vstack res = Inr stacked"
    and red: "(if receptor_arms cfg = Arms_all
               then reduce_and tab ct_id
                      (map (\<lambda>arm. ir_col arm ''1'' (sequence_key cfg)) (receptor_arm_cols cfg)) stacked
               else reduce_or stacked) = Inr res'"
    and row: "row = \<lparr> sr_ncols = length msk, sr_indices = mask_indices msk, sr_data = res' \<rparr>"
    unfolding dist_for_clonotype_def Let_def ebind_Inr_iff by blast
  from st have stacked: "stacked = res" "res \<noteq> []" by (simp_all add: vstack_Inr_iff)
  from sequence_err_Inr [OF res] have
    lres: "length res = length (receptor_arm_cols cfg)"
    and nres: "\<forall>i<length (receptor_arm_cols cfg).
        arm_res lookup cfg tab ct_id (mask_indices msk) (receptor_arm_cols cfg ! i) = Inr (res ! i)"
    by simp_all
  have "0 < length (receptor_arm_cols cfg)" using receptor_arm_cols_nonempty by simp
  then have "arm_res lookup cfg tab ct_id (mask_indices msk) (receptor_arm_cols cfg ! 0) = Inr (res ! 0)"
    using nres by blast
  then have "length (res ! 0) = length (mask_indices msk)" by (rule arm_res_length)
  then have hd: "length (hd res) = length (mask_indices msk)"
    using stacked(2) by (simp add: hd_conv_nth)
  have "length res' = length (hd res)"
  proof (cases "receptor_arms cfg = Arms_all")
    case True
    then show ?thesis using red stacked reduce_and_Inr by (metis (no_types, lifting))
  next
    case False
    then show ?thesis using red stacked reduce_or_Inr(1) by (metis (no_types, lifting))
  qed
  then show ?thesis using msk row hd by simp
qed

lemma sprow_get_not_stored:
  "j \<notin> set (sr_indices row) \<Longrightarrow> sprow_get row j = Fin 0"
proof -
  assume "j \<notin> set (sr_indices row)"
  then have "j \<notin> fst ` set (zip (sr_indices row) (sr_data row))"
    by (auto dest: set_zip_leftD)
  then have "map_of (zip (sr_indices row) (sr_data row)) j = None"
    by (simp add: map_of_eq_None_iff)
  then show ?thesis by (simp add: sprow_get_def)
qed

text \<open>
  Claim C5. The stored columns of the row that \<^verbatim>\<open>_dist_for_clonotype\<close> returns are
  exactly the columns where some lookup of the clonotype is not zero, with one value
  for each; every other column of the row reads 0.
\<close>

theorem dist_row_within_has_distance:
  assumes "dist_for_clonotype lookup cfg tab ct_id = Inr row"
  shows "set (sr_indices row) =
           {j. j < sr_ncols row \<and> (\<exists>r\<in>set (lookup_values lookup cfg ct_id). r ! j \<noteq> 0)} \<and>
         length (sr_data row) = length (sr_indices row) \<and>
         (\<forall>j. (\<forall>r\<in>set (lookup_values lookup cfg ct_id). r ! j = 0) \<longrightarrow> sprow_get row j = Fin 0) \<and>
         (\<forall>j. sprow_get row j \<noteq> Fin 0 \<longrightarrow>
               j < sr_ncols row \<and> (\<exists>r\<in>set (lookup_values lookup cfg ct_id). r ! j \<noteq> 0))"
proof -
  from dist_for_clonotype_Inr [OF assms] obtain msk where
    msk: "has_distance (lookup_values lookup cfg ct_id) = Inr msk"
    and n: "sr_ncols row = length msk" and i: "sr_indices row = mask_indices msk"
    and l: "length (sr_data row) = length (sr_indices row)"
    by blast
  have s: "set (sr_indices row) =
           {j. j < sr_ncols row \<and> (\<exists>r\<in>set (lookup_values lookup cfg ct_id). r ! j \<noteq> 0)}"
    unfolding i n set_mask_indices using has_distance_Inr(3) [OF msk] by auto
  have a: "\<forall>j. (\<forall>r\<in>set (lookup_values lookup cfg ct_id). r ! j = 0) \<longrightarrow> sprow_get row j = Fin 0"
    using s sprow_get_not_stored [of _ row] by blast
  have b: "\<forall>j. sprow_get row j \<noteq> Fin 0 \<longrightarrow>
               j < sr_ncols row \<and> (\<exists>r\<in>set (lookup_values lookup cfg ct_id). r ! j \<noteq> 0)"
    using s sprow_get_not_stored [of _ row] by blast
  from s l a b show ?thesis by blast
qed

lemma get_col_ok:
  assumes "name \<in> set (ct_cols tab)"
  shows "\<exists>col. get_col tab name = Inr col \<and> length col = length (ct_rows tab)"
proof -
  from index_of_in [OF assms] obtain k where "index_of name (ct_cols tab) = Some k" by blast
  then show ?thesis by (simp add: get_col_def)
qed

lemma chain_count_ok:
  assumes "set cols \<subseteq> set (ct_cols tab)" and "ct_id < length (ct_rows tab)"
  shows "\<exists>k. chain_count tab ct_id cols = Inr k"
proof -
  have "\<forall>m\<in>set (map (get_col tab) cols). \<exists>x. m = Inr x"
    using assms(1) get_col_ok [of _ tab] by auto
  from sequence_err_total [OF this] obtain vals
    where "sequence_err (map (get_col tab) cols) = Inr vals" by blast
  then show ?thesis using assms(2) by (simp add: chain_count_def ebind_def)
qed

lemma chain_str_in_dual_ir_cols:
  assumes "(c1, c2) \<in> set (chain_ids cfg)"
  shows "chain_str c1 \<in> set (dual_ir_cols cfg)" and "chain_str c2 \<in> set (dual_ir_cols cfg)"
  using assms
  by (auto simp: chain_ids_def dual_ir_cols_def chain_str_def split: if_splits)

lemma lookup_values_props:
  assumes "\<forall>a b. length (lookup ct_id a b) = n"
  shows "lookup_values lookup cfg ct_id \<noteq> []"
    and "\<forall>r\<in>set (lookup_values lookup cfg ct_id). length r = n"
proof -
  have "chain_ids cfg \<noteq> []" by (simp add: chain_ids_def)
  then show "lookup_values lookup cfg ct_id \<noteq> []"
    using receptor_arm_cols_nonempty [of cfg]
    by (cases "receptor_arm_cols cfg"; cases "chain_ids cfg") (auto simp: lookup_values_def)
  show "\<forall>r\<in>set (lookup_values lookup cfg ct_id). length r = n"
    using assms by (auto simp: lookup_values_def)
qed

lemma make_tmp_res_ok:
  assumes "\<forall>a b. length (lookup ct_id a b) = length (ct_rows tab)"
    and "ir_col arm (chain_str c2) (sequence_key cfg) \<in> set (ct_cols tab)"
    and "\<forall>i\<in>set indices. i < length (ct_rows tab)"
  shows "\<exists>r. make_tmp_res lookup cfg tab ct_id indices arm c1 c2 = Inr r \<and> length r = length indices"
proof -
  from get_col_ok [OF assms(2)] obtain col
    where col: "get_col tab (ir_col arm (chain_str c2) (sequence_key cfg)) = Inr col"
      "length col = length (ct_rows tab)" by blast
  define data where "data = lookup ct_id (table_name arm c1) (table_name arm c2)"
  have ld: "length data = length (ct_rows tab)" using assms(1) by (simp add: data_def)
  define f where "f = (\<lambda>i. if i < length col
                       then (if col ! i \<noteq> ''nan''
                             then (if i < length data then Inr (Fin (data ! i)) else Inl IndexError)
                             else Inr NaN)
                       else (Inl IndexError :: error + npfloat))"
  have "\<forall>m\<in>set (map f indices). \<exists>x. m = Inr x"
    using assms(3) col(2) ld by (auto simp: f_def)
  from sequence_err_total [OF this] obtain r where r: "sequence_err (map f indices) = Inr r"
    by blast
  then have "make_tmp_res lookup cfg tab ct_id indices arm c1 c2 = Inr r"
    using col(1) unfolding make_tmp_res_def Let_def data_def f_def
    by (simp add: ebind_def)
  then show ?thesis using make_tmp_res_length by blast
qed

lemma arm_res_ok:
  assumes "\<forall>a b. length (lookup ct_id a b) = length (ct_rows tab)"
    and "set (cdr3_cols cfg) \<subseteq> set (ct_cols tab)"
    and "arm \<in> set (receptor_arm_cols cfg)"
    and "\<forall>i\<in>set indices. i < length (ct_rows tab)"
    and "ct_id < length (ct_rows tab)"
  shows "\<exists>r. arm_res lookup cfg tab ct_id indices arm = Inr r \<and> length r = length indices"
proof -
  have mk: "\<exists>r. make_tmp_res lookup cfg tab ct_id indices arm c1 c2 = Inr r \<and> length r = length indices"
    if "chain_str c2 \<in> set (dual_ir_cols cfg)" for c1 c2
    using make_tmp_res_ok [of lookup ct_id tab arm c2 cfg indices c1]
      ir_col_in_cdr3_cols [OF assms(3) that] assms(1,2,4)
    by blast
  show ?thesis
  proof (cases "dual_ir cfg")
    case Primary_only
    then have "chain_str 1 \<in> set (dual_ir_cols cfg)"
      by (simp add: chain_str_def dual_ir_cols_def)
    from mk [OF this, of 1] show ?thesis using Primary_only
      by (simp add: arm_res_def Let_def)
  next
    case Dual_all
    then have d: "chain_str 1 \<in> set (dual_ir_cols cfg)" "chain_str 2 \<in> set (dual_ir_cols cfg)"
      by (simp_all add: chain_str_def dual_ir_cols_def)
    define cols where "cols = map (\<lambda>c. ir_col arm (chain_str c) (sequence_key cfg)) [1, 2]"
    have "set cols \<subseteq> set (ct_cols tab)"
      using ir_col_in_cdr3_cols [OF assms(3) d(1)] ir_col_in_cdr3_cols [OF assms(3) d(2)] assms(2)
      by (auto simp: cols_def)
    from chain_count_ok [OF this assms(5)] obtain k where k: "chain_count tab ct_id cols = Inr k"
      by blast
    from mk [OF d(1), of 1] obtain r11 where r11:
      "make_tmp_res lookup cfg tab ct_id indices arm 1 1 = Inr r11" "length r11 = length indices" by blast
    from mk [OF d(2), of 2] obtain r22 where r22:
      "make_tmp_res lookup cfg tab ct_id indices arm 2 2 = Inr r22" "length r22 = length indices" by blast
    from mk [OF d(2), of 1] obtain r12 where r12:
      "make_tmp_res lookup cfg tab ct_id indices arm 1 2 = Inr r12" "length r12 = length indices" by blast
    from mk [OF d(1), of 2] obtain r21 where r21:
      "make_tmp_res lookup cfg tab ct_id indices arm 2 1 = Inr r21" "length r21 = length indices" by blast
    from reduce_and_total [OF k, of "[r11, r22]" "length indices"] r11(2) r22(2)
    obtain a where a: "reduce_and tab ct_id cols [r11, r22] = Inr a" "length a = length indices" by auto
    from reduce_and_total [OF k, of "[r12, r21]" "length indices"] r12(2) r21(2)
    obtain b where b: "reduce_and tab ct_id cols [r12, r21] = Inr b" "length b = length indices" by auto
    from reduce_or_total [of "[a, b]" "length indices"] a(2) b(2)
    obtain r where r: "reduce_or [a, b] = Inr r" "length r = length indices" by auto
    have "arm_res lookup cfg tab ct_id indices arm = Inr r"
      using Dual_all r11(1) r22(1) r12(1) r21(1) a(1) b(1) r(1)
      unfolding arm_res_def Let_def cols_def [symmetric] by (simp add: ebind_def)
    then show ?thesis using r(2) by blast
  next
    case Dual_any
    then have d: "chain_str 1 \<in> set (dual_ir_cols cfg)" "chain_str 2 \<in> set (dual_ir_cols cfg)"
      by (simp_all add: chain_str_def dual_ir_cols_def)
    from mk [OF d(1), of 1] obtain r11 where r11:
      "make_tmp_res lookup cfg tab ct_id indices arm 1 1 = Inr r11" "length r11 = length indices" by blast
    from mk [OF d(2), of 2] obtain r22 where r22:
      "make_tmp_res lookup cfg tab ct_id indices arm 2 2 = Inr r22" "length r22 = length indices" by blast
    from mk [OF d(2), of 1] obtain r12 where r12:
      "make_tmp_res lookup cfg tab ct_id indices arm 1 2 = Inr r12" "length r12 = length indices" by blast
    from mk [OF d(1), of 2] obtain r21 where r21:
      "make_tmp_res lookup cfg tab ct_id indices arm 2 1 = Inr r21" "length r21 = length indices" by blast
    from reduce_or_total [of "[r11, r12, r22, r21]" "length indices"] r11(2) r12(2) r22(2) r21(2)
    obtain r where r: "reduce_or [r11, r12, r22, r21] = Inr r" "length r = length indices" by auto
    have "arm_res lookup cfg tab ct_id indices arm = Inr r"
      using Dual_any r11(1) r22(1) r12(1) r21(1) r(1)
      unfolding arm_res_def Let_def by (simp add: ebind_def)
    then show ?thesis using r(2) by blast
  qed
qed

lemma dist_for_clonotype_ok:
  assumes "\<forall>a b. length (lookup ct_id a b) = length (ct_rows tab)"
    and "set (cdr3_cols cfg) \<subseteq> set (ct_cols tab)"
    and "ct_id < length (ct_rows tab)"
  shows "\<exists>row. dist_for_clonotype lookup cfg tab ct_id = Inr row \<and> sr_ncols row = length (ct_rows tab)"
proof -
  define n where "n = length (ct_rows tab)"
  have "lookup_values lookup cfg ct_id \<noteq> []"
      "\<forall>r\<in>set (lookup_values lookup cfg ct_id). length r = n"
    using lookup_values_props [of lookup ct_id n cfg] assms(1) unfolding n_def by blast+
  from has_distance_total [OF this]
  obtain msk where msk: "has_distance (lookup_values lookup cfg ct_id) = Inr msk" "length msk = n"
    by blast
  define indices where "indices = mask_indices msk"
  have ind: "\<forall>i\<in>set indices. i < length (ct_rows tab)"
    unfolding indices_def set_mask_indices using msk(2) n_def by simp
  have "\<forall>m\<in>set (map (arm_res lookup cfg tab ct_id indices) (receptor_arm_cols cfg)). \<exists>x. m = Inr x"
  proof
    fix m assume "m \<in> set (map (arm_res lookup cfg tab ct_id indices) (receptor_arm_cols cfg))"
    then obtain arm where arm: "arm \<in> set (receptor_arm_cols cfg)"
      "m = arm_res lookup cfg tab ct_id indices arm" by auto
    from arm_res_ok [of lookup ct_id tab cfg arm indices] assms ind arm(1)
    show "\<exists>x. m = Inr x" unfolding arm(2) by blast
  qed
  from sequence_err_total [OF this] obtain res where
    res: "sequence_err (map (arm_res lookup cfg tab ct_id indices) (receptor_arm_cols cfg)) = Inr res"
    by blast
  from sequence_err_Inr [OF res] have
    lres: "length res = length (receptor_arm_cols cfg)"
    and nres: "\<forall>i<length (receptor_arm_cols cfg).
        arm_res lookup cfg tab ct_id indices (receptor_arm_cols cfg ! i) = Inr (res ! i)"
    by simp_all
  have ne: "res \<noteq> []" using lres receptor_arm_cols_nonempty [of cfg] by auto
  have len: "\<forall>r\<in>set res. length r = length indices"
  proof
    fix r assume "r \<in> set res"
    then obtain i where i: "i < length res" "res ! i = r" by (auto simp: in_set_conv_nth)
    then have "arm_res lookup cfg tab ct_id indices (receptor_arm_cols cfg ! i) = Inr r"
      using nres lres by auto
    then show "length r = length indices" by (rule arm_res_length)
  qed
  have st: "vstack res = Inr res"
    using same_length_ok(1) [OF ne len] ne by (simp add: vstack_Inr_iff)
  have "\<exists>res'. (if receptor_arms cfg = Arms_all
               then reduce_and tab ct_id
                      (map (\<lambda>arm. ir_col arm ''1'' (sequence_key cfg)) (receptor_arm_cols cfg)) res
               else reduce_or res) = Inr res'"
  proof (cases "receptor_arms cfg = Arms_all")
    case True
    have "''1'' \<in> set (dual_ir_cols cfg)" by (simp add: dual_ir_cols_def)
    then have "set (map (\<lambda>arm. ir_col arm ''1'' (sequence_key cfg)) (receptor_arm_cols cfg))
                 \<subseteq> set (ct_cols tab)"
      using ir_col_in_cdr3_cols [of _ cfg "''1''"] assms(2) by auto
    from chain_count_ok [OF this assms(3)] obtain k where
      "chain_count tab ct_id (map (\<lambda>arm. ir_col arm ''1'' (sequence_key cfg)) (receptor_arm_cols cfg)) = Inr k"
      by blast
    from reduce_and_total [OF this ne len] show ?thesis using True by auto
  next
    case False
    from reduce_or_total [OF ne len] show ?thesis using False by auto
  qed
  then obtain res' where "(if receptor_arms cfg = Arms_all
               then reduce_and tab ct_id
                      (map (\<lambda>arm. ir_col arm ''1'' (sequence_key cfg)) (receptor_arm_cols cfg)) res
               else reduce_or res) = Inr res'" by blast
  then have "dist_for_clonotype lookup cfg tab ct_id =
               Inr \<lparr> sr_ncols = length msk, sr_indices = indices, sr_data = res' \<rparr>"
    using msk(1) res st unfolding dist_for_clonotype_def Let_def indices_def
    by (simp add: ebind_def)
  then show ?thesis using msk(2) n_def by simp
qed

lemma sp_vstack_ok:
  assumes "blocks \<noteq> []" and "\<forall>r\<in>set blocks. sr_ncols r = n"
  shows "sp_vstack blocks =
           Inr \<lparr> sp_nrows = length blocks, sp_ncols = n,
                 sp_entries = map (\<lambda>r. zip (sr_indices r) (sr_data r)) blocks \<rparr>"
proof -
  from assms(1) obtain b bs where blocks: "blocks = b # bs" by (cases blocks) auto
  then have "list_all (\<lambda>r. sr_ncols r = sr_ncols b) bs" "sr_ncols b = n"
    using assms(2) by (simp_all add: list_all_iff)
  then show ?thesis unfolding sp_vstack_def blocks by simp
qed

lemma sp_get_stored_iff:
  assumes "\<forall>(j, v)\<in>set (sp_entries m ! i). v \<noteq> Fin 0"
  shows "j \<in> fst ` set (sp_entries m ! i) \<longleftrightarrow> sp_get m i j \<noteq> Fin 0"
proof (cases "map_of (sp_entries m ! i) j")
  case None
  then have "j \<notin> fst ` set (sp_entries m ! i)" by (simp add: map_of_eq_None_iff)
  with None show ?thesis by (simp add: sp_get_def)
next
  case (Some v)
  then have "(j, v) \<in> set (sp_entries m ! i)" by (rule map_of_SomeD)
  then have "v \<noteq> Fin 0" "j \<in> fst ` set (sp_entries m ! i)" using assms by force+
  then show ?thesis using Some by (simp add: sp_get_def)
qed

text \<open>A table that \<^verbatim>\<open>_make_clonotype_table\<close> has built has the sequence columns and at
  least one row.\<close>

lemma made_table_well_formed:
  assumes "make_clonotype_table is_na cfg adata = Inr (tab, ci)"
  shows "set (cdr3_cols cfg) \<subseteq> set (ct_cols tab)" and "ct_rows tab \<noteq> []"
proof -
  have tab: "tab = built_table is_na cfg adata"
    using make_clonotype_table_Inr(5) [OF assms] .
  show "set (cdr3_cols cfg) \<subseteq> set (ct_cols tab)"
    unfolding tab built_table_def Let_def by simp
  show "ct_rows tab \<noteq> []"
    using make_clonotype_table_Inr(4) [OF assms] unfolding tab built_table_def Let_def by simp
qed

text \<open>
  Claim C9. For a table with n rows, n > 0, that has the sequence columns, and a lookup
  whose rows have length n, \<^verbatim>\<open>compute_distances\<close> returns an n by n matrix whose row i
  holds the entries of \<^verbatim>\<open>_dist_for_clonotype(i)\<close> that are not 0, in index order; the
  stored entries of the matrix are exactly its nonzero entries.
\<close>

theorem compute_distances_stacks_rows:
  assumes "\<forall>ct a b. length (lookup ct a b) = length (ct_rows tab)"
    and "set (cdr3_cols cfg) \<subseteq> set (ct_cols tab)"
    and "ct_rows tab \<noteq> []"
  shows "\<exists>m. compute_distances lookup cfg tab = Inr m \<and>
           sp_nrows m = length (ct_rows tab) \<and> sp_ncols m = length (ct_rows tab) \<and>
           length (sp_entries m) = length (ct_rows tab) \<and>
           (\<forall>i<length (ct_rows tab). \<exists>row.
              dist_for_clonotype lookup cfg tab i = Inr row \<and>
              sp_entries m ! i = filter (\<lambda>(j, v). v \<noteq> Fin 0) (zip (sr_indices row) (sr_data row))) \<and>
           (\<forall>i<length (ct_rows tab). \<forall>(j, v)\<in>set (sp_entries m ! i).
              v \<noteq> Fin 0 \<and> j < length (ct_rows tab)) \<and>
           (\<forall>i<length (ct_rows tab). \<forall>j.
              j \<in> fst ` set (sp_entries m ! i) \<longleftrightarrow> sp_get m i j \<noteq> Fin 0)"
proof -
  define n where "n = length (ct_rows tab)"
  have ok: "\<exists>row. dist_for_clonotype lookup cfg tab i = Inr row \<and> sr_ncols row = n" if "i < n" for i
    using dist_for_clonotype_ok [of lookup i tab cfg] assms(1,2) that unfolding n_def by blast
  have "\<forall>m\<in>set (map (dist_for_clonotype lookup cfg tab) [0..<n]). \<exists>x. m = Inr x"
  proof
    fix x assume "x \<in> set (map (dist_for_clonotype lookup cfg tab) [0..<n])"
    then obtain i where "i < n" "x = dist_for_clonotype lookup cfg tab i" by auto
    with ok [of i] show "\<exists>y. x = Inr y" by blast
  qed
  from sequence_err_total [OF this] obtain rows where
    rows: "sequence_err (map (dist_for_clonotype lookup cfg tab) [0..<n]) = Inr rows" by blast
  from sequence_err_Inr [OF rows] have lrows: "length rows = n"
    and nrows: "\<And>i. i < n \<Longrightarrow> dist_for_clonotype lookup cfg tab i = Inr (rows ! i)"
    by simp_all
  have ne: "rows \<noteq> []" using lrows assms(3) n_def by auto
  have w: "\<forall>r\<in>set rows. sr_ncols r = n"
  proof
    fix r assume "r \<in> set rows"
    then obtain i where i: "i < n" "rows ! i = r" using lrows by (auto simp: in_set_conv_nth)
    from ok [OF i(1)] nrows [OF i(1)] i(2) show "sr_ncols r = n" by simp
  qed
  define m where "m = eliminate_zeros \<lparr> sp_nrows = length rows, sp_ncols = n,
                 sp_entries = map (\<lambda>r. zip (sr_indices r) (sr_data r)) rows \<rparr>"
  have cd: "compute_distances lookup cfg tab = Inr m"
    using rows sp_vstack_ok [OF ne w]
    unfolding compute_distances_def Let_def n_def [symmetric] m_def by (simp add: ebind_def)
  have shape: "sp_nrows m = n" "sp_ncols m = n" "length (sp_entries m) = n"
    using lrows by (simp_all add: m_def eliminate_zeros_def)
  have ent: "sp_entries m ! i = filter (\<lambda>(j, v). v \<noteq> Fin 0) (zip (sr_indices (rows ! i)) (sr_data (rows ! i)))"
    if "i < n" for i
    using that lrows by (simp add: m_def eliminate_zeros_def)
  have a: "\<forall>i<n. \<exists>row. dist_for_clonotype lookup cfg tab i = Inr row \<and>
              sp_entries m ! i = filter (\<lambda>(j, v). v \<noteq> Fin 0) (zip (sr_indices row) (sr_data row))"
    using nrows ent by blast
  have b: "\<forall>i<n. \<forall>(j, v)\<in>set (sp_entries m ! i). v \<noteq> Fin 0 \<and> j < n"
  proof (intro allI impI ballI)
    fix i x assume i: "i < n" and x: "x \<in> set (sp_entries m ! i)"
    obtain j v where jv: "x = (j, v)" by (cases x)
    from x jv ent [OF i] have nz: "v \<noteq> Fin 0"
      and mem: "(j, v) \<in> set (zip (sr_indices (rows ! i)) (sr_data (rows ! i)))"
      by auto
    from mem have "j \<in> set (sr_indices (rows ! i))" by (rule set_zip_leftD)
    moreover from dist_for_clonotype_Inr [OF nrows [OF i]] obtain msk where
      "sr_ncols (rows ! i) = length msk" "sr_indices (rows ! i) = mask_indices msk" by blast
    moreover have "sr_ncols (rows ! i) = n" using w i lrows by simp
    ultimately have "j < n" by (simp add: set_mask_indices)
    with nz jv show "case x of (j, v) \<Rightarrow> v \<noteq> Fin 0 \<and> j < n" by simp
  qed
  have c: "\<forall>i<n. \<forall>j. j \<in> fst ` set (sp_entries m ! i) \<longleftrightarrow> sp_get m i j \<noteq> Fin 0"
  proof (intro allI impI)
    fix i j assume i: "i < n"
    have "\<forall>(j, v)\<in>set (sp_entries m ! i). v \<noteq> Fin 0" using b i by fastforce
    then show "j \<in> fst ` set (sp_entries m ! i) \<longleftrightarrow> sp_get m i j \<noteq> Fin 0"
      by (rule sp_get_stored_iff)
  qed
  show ?thesis using cd shape a b c unfolding n_def by blast
qed

lemma get_col_length: "get_col tab name = Inr col \<Longrightarrow> length col = length (ct_rows tab)"
  by (auto simp: get_col_def split: option.splits)

lemma dlnf_lookup_length:
  "length (dlnf_lookup tab dms tables ct_id a b) = length (ct_rows tab)"
  unfolding dlnf_lookup_def Let_def
  by (auto split: option.splits sum.splits prod.splits dest: get_col_length)

theorem dist_row_within_has_distance_witness:
  "dist_for_clonotype lookup_dual cfg_dual_all table_dual 0 =
     Inr \<lparr> sr_ncols = 3, sr_indices = [0, 1], sr_data = [Fin 1, Fin 0] \<rparr> \<and>
   lookup_values lookup_dual cfg_dual_all 0 = [[1, 1, 0], [0, 0, 0], [0, 0, 0], [0, 0, 0]] \<and>
   set (sr_indices \<lparr> sr_ncols = 3, sr_indices = [0, 1], sr_data = [Fin 1, Fin 0] \<rparr>) = {0, 1} \<and>
   sprow_get \<lparr> sr_ncols = 3, sr_indices = [0, 1], sr_data = [Fin 1, Fin 0] \<rparr> 2 = Fin 0"
proof -
  have h: "dist_for_clonotype lookup_dual cfg_dual_all table_dual 0 =
     Inr \<lparr> sr_ncols = 3, sr_indices = [0, 1], sr_data = [Fin 1, Fin 0] \<rparr>"
    by code_simp
  have l: "lookup_values lookup_dual cfg_dual_all 0 = [[1, 1, 0], [0, 0, 0], [0, 0, 0], [0, 0, 0]]"
    by code_simp
  from dist_row_within_has_distance [OF h]
  have "(\<forall>r\<in>set (lookup_values lookup_dual cfg_dual_all 0). r ! 2 = 0) \<longrightarrow>
        sprow_get \<lparr> sr_ncols = 3, sr_indices = [0, 1], sr_data = [Fin 1, Fin 0] \<rparr> 2 = Fin 0"
    by blast
  then have "sprow_get \<lparr> sr_ncols = 3, sr_indices = [0, 1], sr_data = [Fin 1, Fin 0] \<rparr> 2 = Fin 0"
    unfolding l by simp
  then show ?thesis using h l by simp
qed

theorem compute_distances_stacks_rows_witness:
  "compute_distances lookup_dual cfg_dual_all table_dual =
     Inr \<lparr> sp_nrows = 3, sp_ncols = 3,
           sp_entries = [[(0, Fin 1)], [(1, Fin 1)], [(2, Fin 1)]] \<rparr> \<and>
   length (ct_rows table_dual) = 3 \<and>
   dist_for_clonotype lookup_dual cfg_dual_all table_dual 0 =
     Inr \<lparr> sr_ncols = 3, sr_indices = [0, 1], sr_data = [Fin 1, Fin 0] \<rparr>"
proof -
  have a: "\<forall>ct a b. length (lookup_dual ct a b) = length (ct_rows table_dual)"
    unfolding lookup_dual_def by (simp add: dlnf_lookup_length)
  have b: "set (cdr3_cols cfg_dual_all) \<subseteq> set (ct_cols table_dual)"
    by code_simp
  have c: "ct_rows table_dual \<noteq> []" by (simp add: table_dual_def)
  have v: "compute_distances lookup_dual cfg_dual_all table_dual =
     Inr \<lparr> sp_nrows = 3, sp_ncols = 3,
           sp_entries = [[(0, Fin 1)], [(1, Fin 1)], [(2, Fin 1)]] \<rparr>"
    by code_simp
  have r: "dist_for_clonotype lookup_dual cfg_dual_all table_dual 0 =
     Inr \<lparr> sr_ncols = 3, sr_indices = [0, 1], sr_data = [Fin 1, Fin 0] \<rparr>"
    by code_simp
  from compute_distances_stacks_rows [OF a b c]
  have "\<exists>m. compute_distances lookup_dual cfg_dual_all table_dual = Inr m \<and>
           sp_nrows m = length (ct_rows table_dual)" by blast
  then have "length (ct_rows table_dual) = 3" unfolding v by simp
  then show ?thesis using v r by simp
qed

theorem clonotype_table_values_witness:
  "make_clonotype_table example_is_na cfg_dual_all adata_dual =
     Inr (table_dual, [[''cell_a'', ''cell_c''], [''cell_d''], [''cell_e'']]) \<and>
   full_rows table_dual = [[''CAA'', ''nan''], [''CAA'', ''CAB''], [''CDD'', ''nan'']] \<and>
   obs_entry cell_a ''IR_VJ_2_junction_aa'' = Missing \<and>
   obs_entry cell_c ''IR_VJ_2_junction_aa'' = Strval ''nan'' \<and>
   clonotype_key example_is_na cfg_dual_all cell_a = [''CAA'', ''nan''] \<and>
   clonotype_key example_is_na cfg_dual_all cell_c = [''CAA'', ''nan'']"
proof -
  have h: "make_clonotype_table example_is_na cfg_dual_all adata_dual =
     Inr (table_dual, [[''cell_a'', ''cell_c''], [''cell_d''], [''cell_e'']])"
    by code_simp
  have e: "full_rows table_dual = [[''CAA'', ''nan''], [''CAA'', ''CAB''], [''CDD'', ''nan'']]"
    "obs_entry cell_a ''IR_VJ_2_junction_aa'' = Missing"
    "obs_entry cell_c ''IR_VJ_2_junction_aa'' = Strval ''nan''"
    "clonotype_key example_is_na cfg_dual_all cell_c = [''CAA'', ''nan'']"
    by code_simp+
  have cols: "clonotype_cols cfg_dual_all = [''IR_VJ_1_junction_aa'', ''IR_VJ_2_junction_aa'']"
    by code_simp
  have "\<forall>col\<in>set (clonotype_cols cfg_dual_all).
          obs_entry cell_a col = obs_entry cell_c col \<or>
          obs_entry cell_a col \<in> {Missing, Strval ''nan''} \<and>
          obs_entry cell_c col \<in> {Missing, Strval ''nan''}"
    unfolding cols by (simp add: cell_a_def cell_c_def)
  with clonotype_table_values [OF h]
  have "clonotype_key example_is_na cfg_dual_all cell_a = clonotype_key example_is_na cfg_dual_all cell_c"
    by blast
  then show ?thesis using h e by simp
qed

theorem orphan_secondary_chain_raises_witness:
  "dual_ir cfg_dual_all = Dual_all \<and>
   receptor_arm_cols cfg_dual_all = [''VJ''] \<and>
   has_ir cell_orphan \<and>
   norm_value example_is_na (obs_entry cell_orphan (ir_col ''VJ'' ''1'' (sequence_key cfg_dual_all))) = ''nan'' \<and>
   norm_value example_is_na (obs_entry cell_orphan (ir_col ''VJ'' ''2'' (sequence_key cfg_dual_all))) = ''CAB'' \<and>
   make_clonotype_table example_is_na cfg_dual_all adata_orphan = Inl AssertionError"
proof -
  have a: "dual_ir cfg_dual_all \<noteq> Primary_only" by (simp add: cfg_dual_all_def)
  have b: "''VJ'' \<in> set (receptor_arm_cols cfg_dual_all)" by code_simp
  have c: "cell_orphan \<in> set (obs adata_orphan)" by (simp add: adata_orphan_def)
  have d: "has_ir cell_orphan" by (simp add: cell_orphan_def)
  have e: "norm_value example_is_na (obs_entry cell_orphan (ir_col ''VJ'' ''1'' (sequence_key cfg_dual_all))) = ''nan''"
    by code_simp
  have f': "norm_value example_is_na (obs_entry cell_orphan (ir_col ''VJ'' ''2'' (sequence_key cfg_dual_all))) = ''CAB''"
    by code_simp
  have f: "norm_value example_is_na (obs_entry cell_orphan (ir_col ''VJ'' ''2'' (sequence_key cfg_dual_all))) \<noteq> ''nan''"
    unfolding f' by simp
  have g: "distinct (map obs_name (obs adata_orphan)) \<and>
          set (clonotype_cols cfg_dual_all) \<subseteq> set (obs_columns adata_orphan) \<and>
          distinct (clonotype_cols cfg_dual_all) \<and> within_group cfg_dual_all \<noteq> Some []"
    by code_simp
  from orphan_secondary_chain_raises [OF a b c d e f] g
  have "make_clonotype_table example_is_na cfg_dual_all adata_orphan = Inl AssertionError"
    by blast
  moreover have "dual_ir cfg_dual_all = Dual_all" "receptor_arm_cols cfg_dual_all = [''VJ'']"
    by code_simp+
  ultimately show ?thesis using d e f' by simp
qed

text \<open>
  Claim C6 as stated fails for the dual-chain policy \<^verbatim>\<open>primary_only\<close>: the check is
  skipped, and the table is built for a cell with a secondary and no primary sequence.
\<close>

theorem orphan_secondary_chain_primary_only_counterexample:
  "dual_ir cfg_v_gene = Primary_only \<and>
   has_ir cell_orphan \<and>
   obs_entry cell_orphan ''IR_VJ_1_junction_aa'' = Missing \<and>
   obs_entry cell_orphan ''IR_VJ_2_junction_aa'' = Strval ''CAB'' \<and>
   make_clonotype_table example_is_na cfg_v_gene adata_orphan =
     Inr (\<lparr> ct_cols = [''IR_VJ_1_junction_aa'', ''IR_VJ_1_v_gene''],
            ct_rows = [[''CAA'', ''TRAV1''], [''nan'', ''nan'']],
            ct_within_group = None \<rparr>, [[''cell_a''], [''cell_orphan'']])"
  by code_simp

section \<open>The code at the inputs where it departs from the claims\<close>

text \<open>
  Claim C3 says that with \<^verbatim>\<open>within_group\<close> set, two clonotypes with the same sequences
  and different groups have distance 0. The code registers the lookup table
  \<^verbatim>\<open>within_group\<close> but never looks it up: for two cells with the sequence CAA in the
  samples A and B, the table has two clonotypes, and the distance between them is 1.
\<close>

theorem within_group_not_folded:
  "make_clonotype_table example_is_na cfg_group adata_ab =
     Inr (table_group, [[''cell_a''], [''cell_b'']]) \<and>
   ct_rows table_group ! 0 = ct_rows table_group ! 1 \<and>
   ct_within_group table_group = Some [[''A''], [''B'']] \<and>
   compute_distances (dlnf_lookup table_group example_distances (add_lookup_tables cfg_group))
     cfg_group table_group =
     Inr \<lparr> sp_nrows = 2, sp_ncols = 2,
           sp_entries = [[(0, Fin 1), (1, Fin 1)], [(0, Fin 1), (1, Fin 1)]] \<rparr> \<and>
   sp_get \<lparr> sp_nrows = 2, sp_ncols = 2,
            sp_entries = [[(0, Fin 1), (1, Fin 1)], [(0, Fin 1), (1, Fin 1)]] \<rparr> 0 1 = Fin 1 \<and>
   ''within_group'' \<in> set (map fst (add_lookup_tables cfg_group)) \<and>
   ''within_group'' \<notin> set (looked_up_tables cfg_group)"
  by code_simp

text \<open>
  Claim C4 says that with \<^verbatim>\<open>same_v_gene\<close>, two clonotypes with the same CDR3 sequence
  and different v-genes have distance 0. The code registers the lookup table
  \<^verbatim>\<open>VJ_1_v_gene\<close> but never looks it up: for two cells with the sequence CAA and the
  v-genes TRAV1 and TRAV2, the table has two clonotypes, and the distance between them
  is 1.
\<close>

theorem v_gene_not_folded:
  "make_clonotype_table example_is_na cfg_v_gene adata_ab =
     Inr (table_v_gene, [[''cell_a''], [''cell_b'']]) \<and>
   ct_rows table_v_gene = [[''CAA'', ''TRAV1''], [''CAA'', ''TRAV2'']] \<and>
   compute_distances (dlnf_lookup table_v_gene example_distances (add_lookup_tables cfg_v_gene))
     cfg_v_gene table_v_gene =
     Inr \<lparr> sp_nrows = 2, sp_ncols = 2,
           sp_entries = [[(0, Fin 1), (1, Fin 1)], [(0, Fin 1), (1, Fin 1)]] \<rparr> \<and>
   sp_get \<lparr> sp_nrows = 2, sp_ncols = 2,
            sp_entries = [[(0, Fin 1), (1, Fin 1)], [(0, Fin 1), (1, Fin 1)]] \<rparr> 0 1 = Fin 1 \<and>
   ''VJ_1_v_gene'' \<in> set (map fst (add_lookup_tables cfg_v_gene)) \<and>
   ''VJ_1_v_gene'' \<notin> set (looked_up_tables cfg_v_gene)"
  by code_simp

text \<open>
  Claim C7 says that the entry of \<^verbatim>\<open>cell_indices\<close> for a clonotype lists every cell
  that collapses to it. With one grouping column (one arm, primary chain only, no
  v-gene, no \<^verbatim>\<open>within_group\<close>) the keys of \<^verbatim>\<open>groupby.indices\<close> are not tuples, the
  \<^verbatim>\<open>.get(ct_tuple, [])\<close> finds nothing, and the entry is empty although both cells
  collapse to the one clonotype.
\<close>

theorem cell_indices_single_column:
  "clonotype_cols cfg_single = [''IR_VJ_1_junction_aa''] \<and>
   clonotype_key example_is_na cfg_single cell_a = [''CAA''] \<and>
   clonotype_key example_is_na cfg_single cell_b = [''CAA''] \<and>
   make_clonotype_table example_is_na cfg_single adata_ab =
     Inr (\<lparr> ct_cols = [''IR_VJ_1_junction_aa''], ct_rows = [[''CAA'']],
            ct_within_group = None \<rparr>, [[]])"
  by code_simp

text \<open>
  Claim C8 says that the engine can be built with a reference dataset and a
  column-matching constraint. \<^verbatim>\<open>ir_query\<close> passes both, as a second positional argument
  and as the keyword \<^verbatim>\<open>match_columns\<close>, and the constructor takes neither: the call is
  a TypeError.
\<close>

theorem ir_query_constructor_call:
  "bind_arguments init_signature ir_query_call = Inl TypeError \<and>
   length (sig_positional init_signature) < call_positional ir_query_call \<and>
   ''match_columns'' \<in> set (call_keywords ir_query_call) \<and>
   ''match_columns'' \<notin> set (sig_positional init_signature @ sig_kwonly init_signature)"
  by code_simp

end
